theory Spec2Isabelle
  imports Complex_Main
begin

section \<open>Conventions\<close>

text \<open>
  The pages are React components.  The component function runs anew on every render, and
  the callbacks it defines (interval ticks, timeouts, event listeners) are closures of
  that render: a state variable named in a callback has the value it had in the render
  that created the callback, whenever the callback runs.  A ref (\<open>useRef\<close>) is read when
  the callback runs.  A setter given an updater function works on the latest state; a
  setter given a value stores that value.

  The state of a page is therefore passed explicitly: a callback is a function from the
  state in which it runs to the state it leaves, and it takes the render that created it
  as an argument.  A callback that is registered (an interval, a timeout, a listener) is
  kept in the state together with that render.  What a callback gets from outside the
  component (the camera, the detector, the speech synthesizer, \<open>Math.random()\<close>, the reply
  of the assistant) is an argument.  Numbers are integers where the code only counts, and
  reals otherwise.
\<close>

section \<open>The detection player: renders and narration\<close>

text \<open>
  What a callback of the detection player reads from the render that created it:
  \<open>currentStepIndex\<close>, \<open>isStepComplete\<close>, \<open>detectionProgress\<close>, \<open>autoDetectTimeout\<close> (the id
  of a timer, or null), \<open>userInteracted\<close> and \<open>ttsAvailable\<close>.
\<close>

record render =
  seenStepIndex :: nat
  seenIsStepComplete :: bool
  seenDetectionProgress :: int
  seenAutoDetectTimeout :: "nat option"
  seenUserInteracted :: bool
  seenTtsAvailable :: bool

text \<open>
  The player narrates through the browser's speech synthesizer and, when that is
  unavailable or fails, through a networked audio clip.

  The synthesizer is the browser's.  It holds a queue of utterances, of which the first
  is spoken once it has started; \<open>speechSynthesis.speaking\<close> is true while an utterance
  is being spoken, and a queued utterance that has not started is only pending.
  \<open>speechSynthesis.speak\<close> appends an utterance.  \<open>speechSynthesis.cancel\<close> removes every
  utterance from the queue; for each removed utterance the browser may afterwards raise
  an error event (\<open>interrupted\<close>, \<open>canceled\<close>), an end event, or nothing, so the removed
  utterances are kept in \<open>cancelled\<close> until then.

  Utterance objects are named by numbers; \<open>onend\<close> is the set of utterances whose
  completion callback is attached and \<open>uttText\<close> the text each one was built from (its
  \<open>onstart\<close> and \<open>onerror\<close> callbacks are never detached).  \<open>clips\<close> lists the texts of the
  fallback \<open>Audio\<close> elements that have been started and have not finished; the page
  keeps no handle to them.  \<open>userInteracted\<close> and \<open>ttsAvailable\<close> are the latest values of
  the two state variables.
\<close>

record narration =
  userInteracted :: bool
  ttsAvailable :: bool
  synthPresent :: bool
  queue :: "nat list"
  headStarted :: bool
  cancelled :: "nat list"
  speechUtteranceRef :: "nat option"
  onend :: "nat set"
  uttText :: "nat \<Rightarrow> string"
  nextUtterance :: nat
  clips :: "string list"
  isPlaying :: bool

definition speaking :: "narration \<Rightarrow> bool" where
  "speaking n = (synthPresent n \<and> 0 < length (queue n) \<and> headStarted n)"

definition playAudioFallback :: "string \<Rightarrow> narration \<Rightarrow> narration" where
  "playAudioFallback text n = n\<lparr>clips := clips n @ [text]\<rparr>"

text \<open>\<open>cancelSpeech\<close> reads refs only, so it is the same for every render.\<close>

definition cancelSpeech :: "narration \<Rightarrow> narration" where
  "cancelSpeech n =
     (let n1 = (if speaking n
                then n\<lparr>cancelled := cancelled n @ queue n, queue := [], headStarted := False\<rparr>
                else n);
          n2 = (case speechUtteranceRef n1 of
                  None \<Rightarrow> n1
                | Some u \<Rightarrow> n1\<lparr>onend := onend n1 - {u}, speechUtteranceRef := None\<rparr>)
      in n2\<lparr>isPlaying := False\<rparr>)"

text \<open>
  \<open>speak\<close> of the render \<open>r\<close>: \<open>userInteracted\<close> and \<open>ttsAvailable\<close> are the render's.  The
  second argument says whether \<open>speechSynthesis.speak\<close> throws on this call (the
  \<open>try\<close>/\<open>catch\<close> around it).
\<close>

definition speak :: "render \<Rightarrow> bool \<Rightarrow> string \<Rightarrow> narration \<Rightarrow> narration" where
  "speak r synthThrows text n =
     (if \<not> seenUserInteracted r then n
      else
        let n1 = cancelSpeech n in
        if seenTtsAvailable r \<and> synthPresent n1 then
          let u = nextUtterance n1;
              n2 = n1\<lparr>speechUtteranceRef := Some u,
                       onend := insert u (onend n1),
                       uttText := (uttText n1)(u := text),
                       nextUtterance := Suc u\<rparr>
          in if synthThrows then playAudioFallback text n2
             else n2\<lparr>queue := queue n2 @ [u]\<rparr>
        else playAudioFallback text n1)"

text \<open>
  The handlers an utterance carries.  \<open>onstart\<close> sets the playing flag; \<open>onend\<close> clears it
  and drops the reference; \<open>onerror\<close> does the same and starts the fallback clip for the
  utterance's text.
\<close>

definition onendHandler :: "nat \<Rightarrow> narration \<Rightarrow> narration" where
  "onendHandler u n =
     (if u \<in> onend n then n\<lparr>isPlaying := False, speechUtteranceRef := None\<rparr> else n)"

definition onerrorHandler :: "nat \<Rightarrow> narration \<Rightarrow> narration" where
  "onerrorHandler u n =
     playAudioFallback (uttText n u) (n\<lparr>isPlaying := False, speechUtteranceRef := None\<rparr>)"

text \<open>
  Events raised by the synthesizer: the first utterance of the queue starts, ends or
  fails; the browser reports on an utterance removed by \<open>cancel\<close>; a fallback clip ends.
\<close>

definition utteranceStarts :: "narration \<Rightarrow> narration" where
  "utteranceStarts n =
     (case queue n of
        [] \<Rightarrow> n
      | u # rest \<Rightarrow> if headStarted n then n else n\<lparr>headStarted := True, isPlaying := True\<rparr>)"

definition utteranceEnds :: "narration \<Rightarrow> narration" where
  "utteranceEnds n =
     (case queue n of
        [] \<Rightarrow> n
      | u # rest \<Rightarrow>
          if headStarted n then onendHandler u (n\<lparr>queue := rest, headStarted := False\<rparr>)
          else n)"

definition utteranceFails :: "narration \<Rightarrow> narration" where
  "utteranceFails n =
     (case queue n of
        [] \<Rightarrow> n
      | u # rest \<Rightarrow> onerrorHandler u (n\<lparr>queue := rest, headStarted := False\<rparr>))"

datatype cancel_notice = RaisesError | RaisesEnd | Silent

definition dropNth :: "nat \<Rightarrow> 'a list \<Rightarrow> 'a list" where
  "dropNth k xs = take k xs @ drop (Suc k) xs"

definition cancelNotice :: "nat \<Rightarrow> cancel_notice \<Rightarrow> narration \<Rightarrow> narration" where
  "cancelNotice k notice n =
     (if k < length (cancelled n) then
        (let u = cancelled n ! k;
             n1 = n\<lparr>cancelled := dropNth k (cancelled n)\<rparr>
         in case notice of
              RaisesError \<Rightarrow> onerrorHandler u n1
            | RaisesEnd \<Rightarrow> onendHandler u n1
            | Silent \<Rightarrow> n1)
      else n)"

definition clipEnds :: "nat \<Rightarrow> narration \<Rightarrow> narration" where
  "clipEnds k n = n\<lparr>clips := dropNth k (clips n)\<rparr>"

text \<open>
  \<open>initSpeech\<close> and its \<open>checkVoices\<close>: \<open>hasSynth\<close> says whether the window has a speech
  synthesizer, \<open>hasVoices\<close> whether it lists a voice.
\<close>

definition checkVoices :: "bool \<Rightarrow> narration \<Rightarrow> narration" where
  "checkVoices hasVoices n = n\<lparr>ttsAvailable := hasVoices\<rparr>"

definition initSpeech :: "bool \<Rightarrow> bool \<Rightarrow> narration \<Rightarrow> narration" where
  "initSpeech hasSynth hasVoices n =
     (if hasSynth then checkVoices hasVoices (n\<lparr>synthPresent := True\<rparr>)
      else n\<lparr>ttsAvailable := False\<rparr>)"

text \<open>The narrations in flight: the utterances the synthesizer holds and the fallback
  clips that are playing.\<close>

definition activeNarrations :: "narration \<Rightarrow> nat" where
  "activeNarrations n = length (queue n) + length (clips n)"

section \<open>The detection player: detection, progress, timers\<close>

record detection =
  bbox :: "real \<times> real \<times> real \<times> real"
  det_class :: string
  score :: real

type_synonym landmark = "real \<times> real \<times> real"
type_synonym hand = "landmark list"

record task_step =
  step_id :: string
  audioPrompt :: string
  defaultRepetition :: "nat option"

text \<open>
  What the callbacks of the detection player read from outside the component:
  the video element (\<open>videoHeight = None\<close> when \<open>videoRef.current\<close> is null), whether the
  object-detection model is loaded, the task selected by the URL (\<open>None\<close> when no task
  has that id), the repetition settings of the URL, and \<open>isHandNearMouth\<close>, which the
  page imports from \<open>lib/handDetection\<close> and which is taken as a parameter here.
\<close>

record env =
  videoHeight :: "real option"
  modelLoaded :: bool
  task :: "task_step list option"
  fixedMode :: bool
  customInterval :: nat
  isHandNearMouth :: "hand list \<Rightarrow> bool"

text \<open>
  A timeout that is pending: its id, the time at which it is due (in milliseconds on the
  clock \<open>now\<close> of the page) and the render whose closure it runs.
\<close>

record timer =
  timerId :: nat
  due :: int
  held :: render

text \<open>
  The state of the detection player.  \<open>stepIndex\<close> is the page's \<open>currentStepIndex\<close> and
  \<open>autoDetectTimeout\<close> the state variable holding the id of the fallback timer set last.
  \<open>fallbackTimers\<close> are the pending fallback timers, \<open>advanceTimeouts\<close> the pending
  two-second timeouts of \<open>completeDetection\<close>, \<open>detectionInterval\<close> the render of the
  running detection interval and \<open>clickListener\<close> the render of the registered click
  listener, if any.
\<close>

record session =
  stepIndex :: nat
  isStepComplete :: bool
  detectionStatus :: string
  detectionProgress :: int
  instructionRepeatCount :: nat
  objectDetections :: "detection list"
  handLandmarks :: "hand list"
  timeLeft :: nat
  autoDetectTimeout :: "nat option"
  now :: int
  nextTimer :: nat
  fallbackTimers :: "timer list"
  advanceTimeouts :: "timer list"
  detectionInterval :: "render option"
  clickListener :: "render option"
  speech :: narration

text \<open>The render of the page in state \<open>s\<close>.\<close>

definition renderOf :: "session \<Rightarrow> render" where
  "renderOf s =
     \<lparr>seenStepIndex = stepIndex s,
      seenIsStepComplete = isStepComplete s,
      seenDetectionProgress = detectionProgress s,
      seenAutoDetectTimeout = autoDetectTimeout s,
      seenUserInteracted = userInteracted (speech s),
      seenTtsAvailable = ttsAvailable (speech s)\<rparr>"

text \<open>\<open>currentStep\<close> and \<open>isLastStep\<close> of a render.\<close>

definition currentStep :: "env \<Rightarrow> render \<Rightarrow> task_step option" where
  "currentStep e r =
     (case task e of
        None \<Rightarrow> None
      | Some steps \<Rightarrow>
          if seenStepIndex r < length steps then Some (steps ! seenStepIndex r) else None)"

definition isLastStep :: "env \<Rightarrow> render \<Rightarrow> bool" where
  "isLastStep e r =
     (int (seenStepIndex r) = int (case task e of None \<Rightarrow> 0 | Some steps \<Rightarrow> length steps) - 1)"

definition stepActionMap :: "(string \<times> string) list" where
  "stepActionMap =
     [(''step-1'', ''pickup_toothbrush''),
      (''step-2'', ''wet_toothbrush''),
      (''step-3'', ''open_toothpaste''),
      (''step-4'', ''apply_toothpaste''),
      (''step-5'', ''brush_teeth''),
      (''step-6'', ''brush_teeth''),
      (''step-7'', ''rinse_mouth'')]"

definition getActionTypeForStep :: "string \<Rightarrow> string" where
  "getActionTypeForStep stepId =
     (case map_of stepActionMap stepId of None \<Rightarrow> ''default'' | Some a \<Rightarrow> a)"

text \<open>
  \<open>completeDetection\<close> of the render \<open>r\<close>.  The fallback timer is cleared, and the state
  variable reset, only when the render's \<open>autoDetectTimeout\<close> is not null, and the timer
  cleared is the render's.  The detection interval is cleared through its ref.  The
  timeout that will call \<open>moveToNextStep\<close> is set for two seconds later and runs the
  closure of the same render.
\<close>

definition completeDetection :: "render \<Rightarrow> session \<Rightarrow> session" where
  "completeDetection r s =
     (let s1 = (case seenAutoDetectTimeout r of
                  None \<Rightarrow> s
                | Some tid \<Rightarrow>
                    s\<lparr>fallbackTimers := filter (\<lambda>t. timerId t \<noteq> tid) (fallbackTimers s),
                      autoDetectTimeout := None\<rparr>)
      in s1\<lparr>detectionInterval := None,
            detectionStatus := ''Task detected!'',
            isStepComplete := True,
            speech := cancelSpeech (speech s1),
            advanceTimeouts := advanceTimeouts s1
              @ [\<lparr>timerId = nextTimer s1, due = now s1 + 2000, held = r\<rparr>],
            nextTimer := Suc (nextTimer s1)\<rparr>)"

definition toothbrushDetection :: "detection list \<Rightarrow> detection option" where
  "toothbrushDetection detections = find (\<lambda>d. det_class d = ''toothbrush'') detections"

definition toothbrushDetected :: "detection list \<Rightarrow> bool" where
  "toothbrushDetected detections =
     (case toothbrushDetection detections of None \<Rightarrow> False | Some d \<Rightarrow> 6 / 10 < score d)"

definition isToothbrushInUpperFrame :: "env \<Rightarrow> detection list \<Rightarrow> bool" where
  "isToothbrushInUpperFrame e detections =
     (case toothbrushDetection detections of
        None \<Rightarrow> False
      | Some d \<Rightarrow>
          fst (snd (bbox d)) < (case videoHeight e of None \<Rightarrow> 0 | Some h \<Rightarrow> h) * (6 / 10))"

text \<open>
  \<open>checkStepCompletion\<close> of the render \<open>r\<close>.  Only \<open>brush_teeth\<close> has a case of its own in
  the \<open>switch\<close>; every other action type takes the \<open>default\<close> case.  \<open>currentStep\<close> is the
  render's.  The updater passed to \<open>setDetectionProgress\<close> works on the latest progress;
  the test \<open>detectionProgress >= 80\<close> reads the render's progress, and stands in the
  positive branch only.
\<close>

definition checkStepCompletion ::
  "env \<Rightarrow> render \<Rightarrow> detection list \<Rightarrow> hand list \<Rightarrow> session \<Rightarrow> session" where
  "checkStepCompletion e r detections landmarks s =
     (case currentStep e r of
        None \<Rightarrow> s
      | Some step \<Rightarrow>
          if getActionTypeForStep (step_id step) = ''brush_teeth'' then
            (let handNearMouth = isHandNearMouth e landmarks in
             if (toothbrushDetected detections \<and> isToothbrushInUpperFrame e detections)
                \<or> (toothbrushDetected detections \<and> handNearMouth)
             then
               (let incrementAmount =
                      (if handNearMouth \<and> toothbrushDetected detections then 25 else 15);
                    s1 = s\<lparr>detectionProgress :=
                             min (detectionProgress s + incrementAmount) 100\<rparr>
                in if 80 \<le> seenDetectionProgress r then completeDetection r s1 else s1)
             else s\<lparr>detectionProgress := max (detectionProgress s - 5) 0\<rparr>)
          else
            (if 0 < length detections \<or> 0 < length landmarks then
               (let s1 = s\<lparr>detectionProgress := min (detectionProgress s + 10) 100\<rparr>
                in if 80 \<le> seenDetectionProgress r then completeDetection r s1 else s1)
             else s\<lparr>detectionProgress := max (detectionProgress s - 2) 0\<rparr>))"

text \<open>
  Positive evidence on a tick, as the two cases of \<open>checkStepCompletion\<close> test it: for a
  \<open>brush_teeth\<close> step a toothbrush above the confidence threshold that is in the upper
  part of the frame or accompanied by the hand signal; for any other step, any detection
  or any hand.
\<close>

definition positiveEvidence :: "env \<Rightarrow> task_step \<Rightarrow> detection list \<Rightarrow> hand list \<Rightarrow> bool" where
  "positiveEvidence e step detections landmarks =
     (if getActionTypeForStep (step_id step) = ''brush_teeth''
      then toothbrushDetected detections
           \<and> (isToothbrushInUpperFrame e detections \<or> isHandNearMouth e landmarks)
      else 0 < length detections \<or> 0 < length landmarks)"

datatype detect_result = DetectThrows | Detected "detection list"

text \<open>
  The callback of the one-second detection interval, a closure of the render \<open>r\<close> that
  called \<open>startDetection\<close>: \<open>isStepComplete\<close> is that render's, the video element and the
  model are read through refs.  \<open>landmarks\<close> is what \<open>simulateHandPose\<close> drew on this tick.
\<close>

definition intervalCallback ::
  "env \<Rightarrow> render \<Rightarrow> detect_result \<Rightarrow> hand list \<Rightarrow> session \<Rightarrow> session" where
  "intervalCallback e r res landmarks s =
     (if videoHeight e = None \<or> \<not> modelLoaded e \<or> seenIsStepComplete r then s
      else case res of
             DetectThrows \<Rightarrow> s
           | Detected detections \<Rightarrow>
               checkStepCompletion e r detections landmarks
                 (s\<lparr>objectDetections := detections, handLandmarks := landmarks\<rparr>))"

text \<open>A tick of the detection interval runs the callback of the interval that is armed.\<close>

definition detectionTick :: "env \<Rightarrow> detect_result \<Rightarrow> hand list \<Rightarrow> session \<Rightarrow> session" where
  "detectionTick e res landmarks s =
     (case detectionInterval s of
        None \<Rightarrow> s
      | Some r \<Rightarrow> intervalCallback e r res landmarks s)"

text \<open>
  \<open>startDetection\<close> of the render \<open>r\<close>; \<open>rnd\<close> is the value of \<open>Math.random()\<close>.  The
  interval of \<open>detectionIntervalRef\<close> is replaced; the fallback timer is added to the
  pending ones (an earlier one is not cleared here) and its id stored in the state.
\<close>

definition randomDelay :: "real \<Rightarrow> int" where
  "randomDelay rnd = 10000 + \<lfloor>rnd * 1000\<rfloor>"

definition startDetection :: "env \<Rightarrow> render \<Rightarrow> real \<Rightarrow> session \<Rightarrow> session" where
  "startDetection e r rnd s =
     (if videoHeight e = None \<or> \<not> modelLoaded e then s
      else s\<lparr>detectionInterval := Some r,
             fallbackTimers := fallbackTimers s
               @ [\<lparr>timerId = nextTimer s, due = now s + randomDelay rnd, held = r\<rparr>],
             autoDetectTimeout := Some (nextTimer s),
             nextTimer := Suc (nextTimer s)\<rparr>)"

text \<open>The callback of a fallback timer, a closure of the render \<open>r\<close> that set it.\<close>

definition fallbackCallback :: "render \<Rightarrow> session \<Rightarrow> session" where
  "fallbackCallback r s =
     completeDetection r (s\<lparr>detectionStatus := ''Task detected!'', detectionProgress := 100\<rparr>)"

text \<open>The \<open>k\<close>-th pending fallback timer fires, once it is due.\<close>

definition fallbackFires :: "nat \<Rightarrow> session \<Rightarrow> session" where
  "fallbackFires k s =
     (if k < length (fallbackTimers s) \<and> due (fallbackTimers s ! k) \<le> now s
      then fallbackCallback (held (fallbackTimers s ! k))
             (s\<lparr>fallbackTimers := dropNth k (fallbackTimers s)\<rparr>)
      else s)"

definition speakInstruction :: "env \<Rightarrow> render \<Rightarrow> bool \<Rightarrow> session \<Rightarrow> session" where
  "speakInstruction e r synthThrows s =
     (case currentStep e r of
        None \<Rightarrow> s
      | Some step \<Rightarrow>
          s\<lparr>instructionRepeatCount := Suc (instructionRepeatCount s),
            speech := speak r synthThrows (audioPrompt step) (speech s)\<rparr>)"

text \<open>
  \<open>moveToNextStep\<close> of the render \<open>r\<close>: \<open>isLastStep\<close>, \<open>currentStepIndex\<close> and
  \<open>currentStep\<close> are the render's, and the new index is stored as a value.
\<close>

definition moveToNextStep :: "env \<Rightarrow> render \<Rightarrow> real \<Rightarrow> bool \<Rightarrow> session \<Rightarrow> session" where
  "moveToNextStep e r rnd synthThrows s =
     (case task e of
        None \<Rightarrow> s
      | Some steps \<Rightarrow>
          (let s1 = s\<lparr>instructionRepeatCount := 0,
                      detectionProgress := 0,
                      objectDetections := [],
                      handLandmarks := []\<rparr>
           in if isLastStep e r then s1
              else
                speakInstruction e r synthThrows
                  (startDetection e r rnd
                    (s1\<lparr>stepIndex := seenStepIndex r + 1,
                        isStepComplete := False,
                        detectionStatus := ''Starting next step...'',
                        timeLeft :=
                          (if fixedMode e then customInterval e
                           else (case (if seenStepIndex r + 1 < length steps
                                       then defaultRepetition (steps ! (seenStepIndex r + 1))
                                       else None) of
                                   None \<Rightarrow> 15
                                 | Some d \<Rightarrow> if d = 0 then 15 else d))\<rparr>))))"

text \<open>The \<open>k\<close>-th pending advance timeout fires, once it is due.\<close>

definition advanceFires :: "env \<Rightarrow> nat \<Rightarrow> real \<Rightarrow> bool \<Rightarrow> session \<Rightarrow> session" where
  "advanceFires e k rnd synthThrows s =
     (if k < length (advanceTimeouts s) \<and> due (advanceTimeouts s ! k) \<le> now s
      then moveToNextStep e (held (advanceTimeouts s ! k)) rnd synthThrows
             (s\<lparr>advanceTimeouts := dropNth k (advanceTimeouts s)\<rparr>)
      else s)"

text \<open>
  \<open>handleFirstInteraction\<close>, the click listener registered by the effect on
  \<open>[currentStep]\<close>, a closure of the render \<open>r\<close> in which the effect ran.  It removes
  itself.
\<close>

definition handleFirstInteraction :: "env \<Rightarrow> render \<Rightarrow> bool \<Rightarrow> session \<Rightarrow> session" where
  "handleFirstInteraction e r synthThrows s =
     speakInstruction e r synthThrows
       (s\<lparr>speech := (speech s)\<lparr>userInteracted := True\<rparr>, clickListener := None\<rparr>)"

definition click :: "env \<Rightarrow> bool \<Rightarrow> session \<Rightarrow> session" where
  "click e synthThrows s =
     (case clickListener s of
        None \<Rightarrow> s
      | Some r \<Rightarrow> handleFirstInteraction e r synthThrows s)"

text \<open>The Enable Voice button: its own handler sets \<open>userInteracted\<close>, and the click
  reaches the window's listener as well.\<close>

definition enableVoice :: "env \<Rightarrow> bool \<Rightarrow> session \<Rightarrow> session" where
  "enableVoice e synthThrows s =
     click e synthThrows (s\<lparr>speech := (speech s)\<lparr>userInteracted := True\<rparr>\<rparr>)"

text \<open>
  The effect on \<open>[currentStep]\<close>.  It runs after a render in which the current step is
  another one than in the render before: the listener of the earlier render is removed
  and, when there is a current step, a listener of the new render is registered.
  \<open>before\<close> is the state of the earlier render and \<open>s\<close> the state of the new one.
\<close>

definition stepKey :: "env \<Rightarrow> session \<Rightarrow> nat option" where
  "stepKey e s =
     (case task e of
        None \<Rightarrow> None
      | Some steps \<Rightarrow> if stepIndex s < length steps then Some (stepIndex s) else None)"

definition currentStepEffect :: "env \<Rightarrow> session \<Rightarrow> session \<Rightarrow> session" where
  "currentStepEffect e before s =
     (if stepKey e s = stepKey e before then s
      else s\<lparr>clickListener := (case stepKey e s of None \<Rightarrow> None | Some i \<Rightarrow> Some (renderOf s))\<rparr>)"

text \<open>
  The state of the component after its first render and the effects of that render:
  the initial values of its \<open>useState\<close> and \<open>useRef\<close> hooks, and the click listener of the
  first render when the task has a first step.  \<open>mountRender\<close> is the first render; the
  mount effect, and so \<open>initCamera\<close> and everything it starts, are its closures.
\<close>

definition initialNarration :: narration where
  "initialNarration =
     \<lparr>userInteracted = False, ttsAvailable = True, synthPresent = False, queue = [],
      headStarted = False, cancelled = [], speechUtteranceRef = None, onend = {},
      uttText = (\<lambda>u. []), nextUtterance = 0, clips = [], isPlaying = False\<rparr>"

definition mountRender :: render where
  "mountRender =
     \<lparr>seenStepIndex = 0, seenIsStepComplete = False, seenDetectionProgress = 0,
      seenAutoDetectTimeout = None, seenUserInteracted = False, seenTtsAvailable = True\<rparr>"

definition initialSession :: "env \<Rightarrow> session" where
  "initialSession e =
     \<lparr>stepIndex = 0, isStepComplete = False, detectionStatus = ''Initializing...'',
      detectionProgress = 0, instructionRepeatCount = 0, objectDetections = [],
      handLandmarks = [], timeLeft = customInterval e, autoDetectTimeout = None,
      now = 0, nextTimer = 1, fallbackTimers = [], advanceTimeouts = [],
      detectionInterval = None,
      clickListener = (case currentStep e mountRender of None \<Rightarrow> None | Some st \<Rightarrow> Some mountRender),
      speech = initialNarration\<rparr>"

text \<open>
  The events of the detection player.  \<open>CameraReady\<close> is \<open>initCamera\<close>, called by the
  mount effect, succeeding: it sets the status and calls \<open>startDetection\<close> of the first
  render.  (The Retry
  Camera button calls \<open>initCamera\<close> of a later render, but it is shown in place of the
  video element, so that call stops at the missing video element.)  \<open>Elapse\<close> lets time
  pass, up to the moment the next pending timeout is due: a timeout that is due runs
  before time goes on.
\<close>

datatype event =
    CameraReady real
  | Tick detect_result "hand list"
  | Elapse int
  | FallbackFires nat
  | AdvanceFires nat real bool
  | Click bool
  | EnableVoice bool
  | InitSpeech bool bool
  | VoicesChanged bool
  | UtteranceStarts
  | UtteranceEnds
  | UtteranceFails
  | CancelNotice nat cancel_notice
  | ClipEnds nat

definition elapse :: "int \<Rightarrow> session \<Rightarrow> session" where
  "elapse dt s =
     (if 0 \<le> dt \<and> list_all (\<lambda>t. now s + dt \<le> due t) (fallbackTimers s @ advanceTimeouts s)
      then s\<lparr>now := now s + dt\<rparr>
      else s)"

fun react :: "env \<Rightarrow> session \<Rightarrow> event \<Rightarrow> session" where
  "react e s (CameraReady rnd) =
     startDetection e mountRender rnd (s\<lparr>detectionStatus := ''Camera ready''\<rparr>)"
| "react e s (Tick res landmarks) = detectionTick e res landmarks s"
| "react e s (Elapse dt) = elapse dt s"
| "react e s (FallbackFires k) = fallbackFires k s"
| "react e s (AdvanceFires k rnd synthThrows) = advanceFires e k rnd synthThrows s"
| "react e s (Click synthThrows) = click e synthThrows s"
| "react e s (EnableVoice synthThrows) = enableVoice e synthThrows s"
| "react e s (InitSpeech hasSynth hasVoices) =
     (if hasSynth then s\<lparr>speech := initSpeech hasSynth hasVoices (speech s)\<rparr>
      else s\<lparr>speech := initSpeech hasSynth hasVoices (speech s),
             detectionStatus := ''Voice instructions not supported''\<rparr>)"
| "react e s (VoicesChanged hasVoices) =
     (if synthPresent (speech s) then s\<lparr>speech := checkVoices hasVoices (speech s)\<rparr> else s)"
| "react e s UtteranceStarts =
     (if queue (speech s) = [] \<or> headStarted (speech s) then s
      else s\<lparr>speech := utteranceStarts (speech s), detectionStatus := ''Speaking instruction...''\<rparr>)"
| "react e s UtteranceEnds = s\<lparr>speech := utteranceEnds (speech s)\<rparr>"
| "react e s UtteranceFails = s\<lparr>speech := utteranceFails (speech s)\<rparr>"
| "react e s (CancelNotice k notice) = s\<lparr>speech := cancelNotice k notice (speech s)\<rparr>"
| "react e s (ClipEnds k) = s\<lparr>speech := clipEnds k (speech s)\<rparr>"

text \<open>One event: its callback runs, the page renders again and the effect on
  \<open>[currentStep]\<close> runs if the current step has changed.\<close>

definition step :: "env \<Rightarrow> session \<Rightarrow> event \<Rightarrow> session" where
  "step e s ev = currentStepEffect e s (react e s ev)"

definition run :: "env \<Rightarrow> session \<Rightarrow> event list \<Rightarrow> session" where
  "run e s evs = foldl (step e) s evs"

section \<open>The frame classifier (detectToothbrush, analyzeImage)\<close>

text \<open>
  Both classifiers call OpenCV.js.  A matrix is the list of its elements, and the empty
  list is the empty matrix that \<open>new cv.Mat()\<close> creates; a canvas is the list of its
  pixels.  The image operations are the library's and are parameters here: what
  \<open>cv.imread\<close> reads from a canvas, the grey image of a matrix and its edge map.

  The calling conventions are the library's as well.  \<open>cv.imread\<close> takes the image source and
  returns a new matrix; like every JavaScript function it ignores an argument it does not
  declare.  \<open>cv.cvtColor\<close> and \<open>cv.Canny\<close> write their result to the matrix passed second
  and throw when the source matrix is empty (\<open>None\<close> here).  \<open>cv.countNonZero\<close> counts the
  elements that are not zero.
\<close>

type_synonym mat = "nat list"
type_synonym canvas = "nat list"

record opencv =
  imread :: "canvas \<Rightarrow> mat"
  grayscale :: "mat \<Rightarrow> mat"
  edgeMap :: "mat \<Rightarrow> mat"

definition newMat :: mat where
  "newMat = []"

definition cvtColor :: "opencv \<Rightarrow> mat \<Rightarrow> mat option" where
  "cvtColor cv src = (if src = [] then None else Some (grayscale cv src))"

definition Canny :: "opencv \<Rightarrow> mat \<Rightarrow> mat option" where
  "Canny cv gray = (if gray = [] then None else Some (edgeMap cv gray))"

definition countNonZero :: "mat \<Rightarrow> nat" where
  "countNonZero m = length (filter (\<lambda>x. x \<noteq> 0) m)"

definition threshold :: nat where
  "threshold = 1000"

text \<open>
  The statements of the \<open>try\<close> block, which are the same in both classifiers; \<open>src\<close> is the
  matrix the block passes to \<open>cvtColor\<close>.  The matrix that \<open>imread\<close> returns is not bound
  to a name.  The value is \<open>None\<close> when a statement throws.
\<close>

definition tryBlock :: "opencv \<Rightarrow> canvas \<Rightarrow> mat \<Rightarrow> bool option" where
  "tryBlock cv canvas src =
     (let unbound = imread cv canvas in
      case cvtColor cv src of
        None \<Rightarrow> None
      | Some gray \<Rightarrow>
          (case Canny cv gray of
             None \<Rightarrow> None
           | Some dst \<Rightarrow> Some (threshold < countNonZero dst)))"

text \<open>
  \<open>detectToothbrush\<close>; the first argument is \<open>window.cv\<close>, \<open>None\<close> when OpenCV.js is not
  loaded.  The three matrices are created before the \<open>try\<close>, so a missing library is an
  error of the call; whatever the \<open>try\<close> block throws is caught and gives \<open>false\<close>.
\<close>

datatype js_error = TypeError

definition detectToothbrush :: "opencv option \<Rightarrow> canvas \<Rightarrow> js_error + bool" where
  "detectToothbrush window_cv canvas =
     (case window_cv of
        None \<Rightarrow> Inl TypeError
      | Some cv \<Rightarrow>
          (let src = newMat in
           case tryBlock cv canvas src of None \<Rightarrow> Inr False | Some positive \<Rightarrow> Inr positive))"

text \<open>
  The number of edge pixels of a frame: the count of the edge map of the grey image of
  the matrix read from the canvas.
\<close>

definition edgeCount :: "opencv \<Rightarrow> canvas \<Rightarrow> nat" where
  "edgeCount cv canvas = countNonZero (edgeMap cv (grayscale cv (imread cv canvas)))"

section \<open>The OpenCV task player (captureAndAnalyze)\<close>

record player_step =
  ps_id :: string
  maxAttempts :: "nat option"

definition brushingTeethTask :: "player_step list" where
  "brushingTeethTask =
     [\<lparr>ps_id = ''step-1'', maxAttempts = Some 3\<rparr>,
      \<lparr>ps_id = ''step-2'', maxAttempts = Some 3\<rparr>,
      \<lparr>ps_id = ''step-3'', maxAttempts = Some 3\<rparr>,
      \<lparr>ps_id = ''step-4'', maxAttempts = Some 6\<rparr>,
      \<lparr>ps_id = ''step-5'', maxAttempts = Some 6\<rparr>,
      \<lparr>ps_id = ''step-6'', maxAttempts = Some 3\<rparr>]"

text \<open>\<open>currentStep.maxAttempts || 3\<close>: a missing cap and a cap of zero read as 3.\<close>

definition attemptCap :: "player_step \<Rightarrow> nat" where
  "attemptCap st = (case maxAttempts st of None \<Rightarrow> 3 | Some m \<Rightarrow> if m = 0 then 3 else m)"

text \<open>
  What \<open>captureAndAnalyze\<close> and \<open>analyzeImage\<close> read from the render that created them:
  \<open>currentStepIndex\<close> (and with it \<open>currentStep\<close> and \<open>isLastStep\<close>), \<open>captureCount\<close> and
  \<open>opencvReady\<close>.
\<close>

record player_render =
  heldStepIndex :: nat
  heldCaptureCount :: nat
  heldOpencvReady :: bool

text \<open>
  The state of the task player.  \<open>intervalRef\<close> is the render of the three-second
  interval that is running, if any, and \<open>advances\<close> are the renders of the pending
  two-second timeouts.  The page renders the video and the canvas element only while
  \<open>isCameraActive\<close> is true, so \<open>videoRef.current\<close> and \<open>canvasRef.current\<close> are present
  exactly then.
\<close>

record player =
  currentStepIndex :: nat
  stepCompleted :: bool
  captureCount :: nat
  isCameraActive :: bool
  opencvReady :: bool
  intervalRef :: "player_render option"
  advances :: "player_render list"

definition playerRender :: "player \<Rightarrow> player_render" where
  "playerRender p =
     \<lparr>heldStepIndex = currentStepIndex p, heldCaptureCount = captureCount p,
      heldOpencvReady = opencvReady p\<rparr>"

definition playerIsLastStep :: "player_render \<Rightarrow> bool" where
  "playerIsLastStep r = (int (heldStepIndex r) = int (length brushingTeethTask) - 1)"

text \<open>\<open>analyzeImage\<close> of the render \<open>r\<close>.  Here the matrices are created inside the \<open>try\<close>.\<close>

definition analyzeImage :: "opencv option \<Rightarrow> player_render \<Rightarrow> bool \<Rightarrow> canvas \<Rightarrow> bool" where
  "analyzeImage window_cv r canvasPresent canvas =
     (if \<not> canvasPresent \<or> \<not> heldOpencvReady r then False
      else case window_cv of
             None \<Rightarrow> False
           | Some cv \<Rightarrow>
               (let src = newMat in
                case tryBlock cv canvas src of None \<Rightarrow> False | Some positive \<Rightarrow> positive))"


text \<open>The timeout set by \<open>captureAndAnalyze\<close> of the render \<open>r\<close> fires.\<close>

definition advance :: "player_render \<Rightarrow> player \<Rightarrow> player" where
  "advance r p =
     (if playerIsLastStep r then p else p\<lparr>currentStepIndex := currentStepIndex p + 1\<rparr>)"




text \<open>
  \<open>startCamera\<close>; \<open>granted\<close> says whether \<open>getUserMedia\<close> gives a stream.  The camera is
  marked active only when the video element is present.
\<close>

definition startCamera :: "bool \<Rightarrow> player \<Rightarrow> player" where
  "startCamera granted p =
     (if granted then (if isCameraActive p then p\<lparr>isCameraActive := True\<rparr> else p)
      else p\<lparr>isCameraActive := False\<rparr>)"

text \<open>The task player after its first render and the effects of that render.\<close>

definition initialPlayer :: player where
  "initialPlayer =
     \<lparr>currentStepIndex = 0, stepCompleted = False, captureCount = 0, isCameraActive = False,
      opencvReady = False, intervalRef = None, advances = []\<rparr>"

section \<open>The guidance assistant (getParentGuidance, handleSend)\<close>

text \<open>
  A parsed JSON value.  An object is the list of its properties; \<open>getProp\<close> is the
  property read \<open>response.name\<close> on a value other than \<open>null\<close>, with \<open>None\<close> for
  \<open>undefined\<close>, and \<open>truthy\<close> is JavaScript's truthiness, which \<open>!\<close> negates.
\<close>

datatype json =
    JNull
  | JBool bool
  | JNum real
  | JStr string
  | JArr "json list"
  | JObj "(string \<times> json) list"

fun getProp :: "json \<Rightarrow> string \<Rightarrow> json option" where
  "getProp (JObj props) name = map_of props name"
| "getProp v name = None"

fun truthy :: "json option \<Rightarrow> bool" where
  "truthy None = False"
| "truthy (Some JNull) = False"
| "truthy (Some (JBool b)) = b"
| "truthy (Some (JNum x)) = (x < 0 \<or> 0 < x)"
| "truthy (Some (JStr s)) = (0 < length s)"
| "truthy (Some (JArr xs)) = True"
| "truthy (Some (JObj props)) = True"

text \<open>
  What the call to the generative model gives for a prompt and a context: the request
  fails, the cleaned-up text is not JSON (\<open>JSON.parse\<close> throws), or it parses.
\<close>

datatype reply = GenerateThrows | NotJson | Parsed json

datatype guidance_error = GuidanceError string

definition retryMessage :: string where
  "retryMessage = ''Failed to get guidance. Please try again.''"

text \<open>
  \<open>getParentGuidance\<close>: everything thrown inside the \<open>try\<close> (the failed request, the
  syntax error, the type error of reading a property of \<open>null\<close>, the error for an
  invalid structure) is caught and replaced by one error with the retry message.
\<close>

definition getParentGuidance ::
  "(string \<Rightarrow> string \<Rightarrow> reply) \<Rightarrow> string \<Rightarrow> string \<Rightarrow> guidance_error + json" where
  "getParentGuidance model prompt context =
     (case model prompt context of
        GenerateThrows \<Rightarrow> Inl (GuidanceError retryMessage)
      | NotJson \<Rightarrow> Inl (GuidanceError retryMessage)
      | Parsed response \<Rightarrow>
          (case response of
             JNull \<Rightarrow> Inl (GuidanceError retryMessage)
           | _ \<Rightarrow>
               if \<not> truthy (getProp response ''support'')
                  \<or> \<not> truthy (getProp response ''actionPlan'')
                  \<or> \<not> truthy (getProp response ''therapySuggestions'')
               then Inl (GuidanceError retryMessage)
               else Inr response))"

subsection \<open>Strings\<close>

text \<open>
  Strings are lists of characters with codes below 256, each one code unit of the
  JavaScript string.  Among these characters \<open>toLowerCase\<close> lowers the letters A to Z and
  the accented capitals 0xC0 to 0xDE (0xD7, the multiplication sign, is not a letter),
  each to the character 0x20 above it, and leaves every other character as it is.
  \<open>trim\<close> strips white space and line terminators from both ends; among these
  characters they are the codes 0x09 to 0x0D, the space 0x20 and the no-break space 0xA0.
  \<open>str_includes s k\<close> is \<open>s.includes(k)\<close>.
\<close>

definition upperCase :: string where
  "upperCase =
     ''ABCDEFGHIJKLMNOPQRSTUVWXYZ''
     @ [CHR 0xC0, CHR 0xC1, CHR 0xC2, CHR 0xC3, CHR 0xC4, CHR 0xC5, CHR 0xC6, CHR 0xC7,
        CHR 0xC8, CHR 0xC9, CHR 0xCA, CHR 0xCB, CHR 0xCC, CHR 0xCD, CHR 0xCE, CHR 0xCF,
        CHR 0xD0, CHR 0xD1, CHR 0xD2, CHR 0xD3, CHR 0xD4, CHR 0xD5, CHR 0xD6, CHR 0xD8,
        CHR 0xD9, CHR 0xDA, CHR 0xDB, CHR 0xDC, CHR 0xDD, CHR 0xDE]"

definition lowerCase :: string where
  "lowerCase =
     ''abcdefghijklmnopqrstuvwxyz''
     @ [CHR 0xE0, CHR 0xE1, CHR 0xE2, CHR 0xE3, CHR 0xE4, CHR 0xE5, CHR 0xE6, CHR 0xE7,
        CHR 0xE8, CHR 0xE9, CHR 0xEA, CHR 0xEB, CHR 0xEC, CHR 0xED, CHR 0xEE, CHR 0xEF,
        CHR 0xF0, CHR 0xF1, CHR 0xF2, CHR 0xF3, CHR 0xF4, CHR 0xF5, CHR 0xF6, CHR 0xF8,
        CHR 0xF9, CHR 0xFA, CHR 0xFB, CHR 0xFC, CHR 0xFD, CHR 0xFE]"

definition toLowerChar :: "char \<Rightarrow> char" where
  "toLowerChar c = (case map_of (zip upperCase lowerCase) c of None \<Rightarrow> c | Some l \<Rightarrow> l)"

definition toLowerCase :: "string \<Rightarrow> string" where
  "toLowerCase s = map toLowerChar s"

fun startsWith :: "string \<Rightarrow> string \<Rightarrow> bool" where
  "startsWith s [] = True"
| "startsWith [] (k # ks) = False"
| "startsWith (c # cs) (k # ks) = (c = k \<and> startsWith cs ks)"

fun str_includes :: "string \<Rightarrow> string \<Rightarrow> bool" where
  "str_includes [] k = startsWith [] k"
| "str_includes (c # cs) k = (startsWith (c # cs) k \<or> str_includes cs k)"

definition isWhiteSpace :: "char \<Rightarrow> bool" where
  "isWhiteSpace c =
     (c \<in> set [CHR '' '', CHR 0x09, CHR 0x0A, CHR 0x0B, CHR 0x0C, CHR 0x0D, CHR 0xA0])"

definition trim :: "string \<Rightarrow> string" where
  "trim s = rev (dropWhile isWhiteSpace (rev (dropWhile isWhiteSpace s)))"

definition join :: "string list \<Rightarrow> string" where
  "join parts = (case parts of [] \<Rightarrow> [] | x # xs \<Rightarrow> foldl (\<lambda>acc y. acc @ '' '' @ y) x xs)"

text \<open>\<open>xs.slice(-n)\<close>: the last \<open>n\<close> elements, all of them when there are fewer.\<close>

definition sliceLast :: "nat \<Rightarrow> 'a list \<Rightarrow> 'a list" where
  "sliceLast n xs = drop (length xs - n) xs"

subsection \<open>The chat page\<close>

datatype sender = Parent | Guide

datatype content = Text string | Guidance json

text \<open>\<open>isGeneral\<close> is optional in the source; an absent flag reads as false.\<close>

record chat_message =
  sender :: sender
  content :: content
  isGeneral :: bool

record chat =
  messages :: "chat_message list"
  input :: string
  isLoading :: bool

definition GENERAL_KEYWORDS :: "string list" where
  "GENERAL_KEYWORDS = [''weather'', ''time'', ''capital'', ''how old'', ''who is'']"

definition isGeneralQuery :: "string \<Rightarrow> bool" where
  "isGeneralQuery query =
     list_ex (\<lambda>keyword. str_includes (toLowerCase query) (toLowerCase keyword)) GENERAL_KEYWORDS"

definition generalReply :: chat_message where
  "generalReply =
     \<lparr>sender = Guide,
      content = Text ''I specialize in neurodevelopmental guidance. For general questions like this, please try a different resource.'',
      isGeneral = True\<rparr>"

definition errorReply :: chat_message where
  "errorReply =
     \<lparr>sender = Guide,
      content = Text ''Sorry, I encountered an error. Please try again later.'',
      isGeneral = False\<rparr>"

definition parentMessage :: "string \<Rightarrow> chat_message" where
  "parentMessage text = \<lparr>sender = Parent, content = Text text, isGeneral = False\<rparr>"

text \<open>The text a message contributes to the context; \<open>stringify\<close> is \<open>JSON.stringify\<close>.\<close>

definition contentString :: "(json \<Rightarrow> string) \<Rightarrow> chat_message \<Rightarrow> string" where
  "contentString stringify m =
     (case content m of Text t \<Rightarrow> t | Guidance g \<Rightarrow> stringify g)"

text \<open>The context string \<open>handleSend\<close> builds from the messages of the render.\<close>

definition contextOf :: "(json \<Rightarrow> string) \<Rightarrow> chat_message list \<Rightarrow> string" where
  "contextOf stringify msgs =
     join (map (contentString stringify) (filter (\<lambda>m. \<not> isGeneral m) (sliceLast 3 msgs)))"

text \<open>
  \<open>handleSend\<close>, returning the new state of the page and the calls it made to
  \<open>getParentGuidance\<close>, each with its prompt and context.  \<open>messages\<close> in the body is
  the list of the render, without the message this call appends.
\<close>

definition handleSend ::
  "(string \<Rightarrow> string \<Rightarrow> reply) \<Rightarrow> (json \<Rightarrow> string) \<Rightarrow> chat \<Rightarrow> chat \<times> (string \<times> string) list" where
  "handleSend model stringify st =
     (if trim (input st) = [] \<or> isLoading st then (st, [])
      else
        (let userMessage = parentMessage (input st);
             st1 = st\<lparr>messages := messages st @ [userMessage], input := [], isLoading := True\<rparr>
         in if isGeneralQuery (input st) then
              (st1\<lparr>messages := messages st1 @ [generalReply], isLoading := False\<rparr>, [])
            else
              (let context = contextOf stringify (messages st) in
               case getParentGuidance model (input st) context of
                 Inr response \<Rightarrow>
                   (st1\<lparr>messages := messages st1
                          @ [\<lparr>sender = Guide, content = Guidance response, isGeneral = False\<rparr>],
                        isLoading := False\<rparr>,
                    [(input st, context)])
               | Inl err \<Rightarrow>
                   (st1\<lparr>messages := messages st1 @ [errorReply], isLoading := False\<rparr>,
                    [(input st, context)]))))"

section \<open>Camera acquisition (initCamera)\<close>

text \<open>
  What one pass through the \<open>try\<close> block of \<open>initCamera\<close> ends in: the camera plays, or
  something is thrown: a \<open>DOMException\<close> with its name, or another error (no video
  element, the ten-second metadata timeout, a video error).
\<close>

datatype failure =
    NotFoundError
  | NotAllowedError
  | NotReadableError
  | OtherDOMException string
  | OtherError string

datatype attempt_outcome = Acquired | Failed failure

fun errorMessage :: "failure \<Rightarrow> string" where
  "errorMessage NotFoundError = ''No camera found''"
| "errorMessage NotAllowedError = ''Permission denied''"
| "errorMessage NotReadableError = ''Camera in use''"
| "errorMessage (OtherDOMException name) = ''Camera error''"
| "errorMessage (OtherError msg) = ''Camera error''"

text \<open>
  The camera side of the component state.  \<open>tries\<close> counts the passes through the \<open>try\<close>
  block and \<open>waits\<close> lists the back-off delays slept, in milliseconds; both are there
  to state what the retry does.
\<close>

record camera =
  cameraActive :: bool
  cameraError :: "string option"
  cameraStatus :: string
  detectionStarted :: bool
  tries :: nat
  waits :: "nat list"

text \<open>\<open>initCamera\<close>; \<open>acquire k\<close> is the outcome of the pass made with \<open>attempt = k\<close>.\<close>

function initCamera :: "(nat \<Rightarrow> attempt_outcome) \<Rightarrow> nat \<Rightarrow> camera \<Rightarrow> camera" where
  "initCamera acquire attempt c =
     (let c1 = c\<lparr>cameraStatus := ''Initializing camera...'', tries := tries c + 1\<rparr> in
      case acquire attempt of
        Acquired \<Rightarrow>
          c1\<lparr>cameraActive := True, cameraError := None, cameraStatus := ''Camera ready'',
             detectionStarted := True\<rparr>
      | Failed err \<Rightarrow>
          if attempt < 3 then
            initCamera acquire (attempt + 1) (c1\<lparr>waits := waits c1 @ [1000 * attempt]\<rparr>)
          else
            c1\<lparr>cameraError := Some (errorMessage err), cameraActive := False,
               cameraStatus := errorMessage err\<rparr>)"
  by pat_completeness auto
termination
  by (relation "measure (\<lambda>(acquire, attempt, c). 3 - attempt)") auto

declare initCamera.simps [simp del]

definition initialCamera :: camera where
  "initialCamera =
     \<lparr>cameraActive = False, cameraError = None, cameraStatus = ''Initializing...'',
      detectionStarted = False, tries = 0, waits = []\<rparr>"


section \<open>Notions for the invariants of the detection player\<close>

text \<open>
  What a narration holds or may still start: the utterances in the queue of the
  synthesizer, the utterances removed by \<open>cancel\<close> on which the browser has not reported
  yet (an error event starts a fallback clip), and the clips that are playing.
\<close>

definition load :: "narration \<Rightarrow> nat" where
  "load n = length (queue n) + length (cancelled n) + length (clips n)"

text \<open>
  The click listener is effective when \<open>userInteracted\<close> is true in the render that
  registered it: only then does its call of \<open>speak\<close> get past the first line.
\<close>

definition effective :: "session \<Rightarrow> bool" where
  "effective s = (case clickListener s of None \<Rightarrow> False | Some r \<Rightarrow> seenUserInteracted r)"

definition potential :: "session \<Rightarrow> nat" where
  "potential s = load (speech s) + (if effective s then 1 else 0)"

text \<open>
  The detection interval and every pending timeout run closures of the first render:
  the mount effect starts \<open>initCamera\<close>, whose \<open>startDetection\<close> sets the first interval
  and the first fallback timer, and each of their callbacks calls the functions of its
  own render.
\<close>

definition heldByMount :: "session \<Rightarrow> bool" where
  "heldByMount s =
     ((case detectionInterval s of None \<Rightarrow> True | Some r \<Rightarrow> r = mountRender)
      \<and> list_all (\<lambda>t. held t = mountRender) (fallbackTimers s)
      \<and> list_all (\<lambda>t. held t = mountRender) (advanceTimeouts s))"

definition pageInv :: "session \<Rightarrow> bool" where
  "pageInv s =
     (heldByMount s \<and> stepIndex s \<le> 1
      \<and> potential s \<le> (if stepIndex s = 0 then 0 else 1))"

text \<open>
  \<open>quiet s s'\<close>: from \<open>s\<close> to \<open>s'\<close> the click listener and the load of the narration are
  the same, the step index is the same or 1, and the callbacks registered in \<open>s'\<close> are
  closures of the first render.
\<close>

definition quiet :: "session \<Rightarrow> session \<Rightarrow> bool" where
  "quiet s s' =
     (clickListener s' = clickListener s \<and> load (speech s') = load (speech s)
      \<and> (stepIndex s' = stepIndex s \<or> stepIndex s' = 1) \<and> heldByMount s')"

section \<open>Example inputs\<close>

text \<open>Concrete inputs on which the theorems below are instantiated.\<close>

definition exampleTask :: "task_step list" where
  "exampleTask =
     [\<lparr>step_id = ''step-1'', audioPrompt = ''Pick up your toothbrush'', defaultRepetition = None\<rparr>,
      \<lparr>step_id = ''step-5'', audioPrompt = ''Brush your teeth'', defaultRepetition = Some 20\<rparr>]"

definition exampleEnv :: env where
  "exampleEnv =
     \<lparr>videoHeight = Some 480, modelLoaded = True, task = Some exampleTask,
      fixedMode = False, customInterval = 15,
      isHandNearMouth = (\<lambda>hands. 0 < length hands)\<rparr>"

definition toothbrushAt :: "real \<Rightarrow> real \<Rightarrow> detection" where
  "toothbrushAt y sc = \<lparr>bbox = (100, y, 80, 200), det_class = ''toothbrush'', score = sc\<rparr>"

definition oneHand :: "hand list" where
  "oneHand = [replicate 21 (1 / 2, 1 / 2, 0)]"

text \<open>A render of the second step of \<open>exampleTask\<close>, a \<open>brush_teeth\<close> step.\<close>

definition brushingRender :: render where
  "brushingRender = mountRender\<lparr>seenStepIndex := 1\<rparr>"

text \<open>
  An OpenCV whose operations leave the matrix as it is, and a frame of 2000 pixels of
  which 1500 are not zero.
\<close>

definition exampleCv :: opencv where
  "exampleCv = \<lparr>imread = (\<lambda>c. c), grayscale = (\<lambda>m. m), edgeMap = (\<lambda>m. m)\<rparr>"

definition exampleFrame :: canvas where
  "exampleFrame = replicate 1500 255 @ replicate 500 0"

text \<open>The task player on its first step with the camera active and OpenCV loaded.\<close>

definition activePlayer :: player where
  "activePlayer = initialPlayer\<lparr>isCameraActive := True, opencvReady := True\<rparr>"

text \<open>A reply of the model that lacks \<open>therapySuggestions\<close>.\<close>

definition incompleteReply :: json where
  "incompleteReply =
     JObj [(''support'', JObj [(''emotionalSupport'', JStr ''You are doing well''),
                              (''validation'', JStr ''Your feelings are valid'')]),
           (''actionPlan'', JObj [(''immediateSteps'', JArr [JStr ''Pause'']),
                                 (''ageSpecificPlans'', JObj []),
                                 (''longTermStrategies'', JArr [])])]"

definition exampleChat :: chat where
  "exampleChat = \<lparr>messages = [], input = ''My child is upset'', isLoading = False\<rparr>"

definition exampleStringify :: "json \<Rightarrow> string" where
  "exampleStringify j = ''{}''"

definition weatherChat :: chat where
  "weatherChat = \<lparr>messages = [], input = ''What is the WEATHER today?'', isLoading = False\<rparr>"

definition failingModel :: "string \<Rightarrow> string \<Rightarrow> reply" where
  "failingModel prompt ctx = GenerateThrows"

text \<open>Two cameras: one whose permission is denied on every attempt, one that is busy on
  the first attempt and free afterwards.\<close>

definition alwaysDenied :: "nat \<Rightarrow> attempt_outcome" where
  "alwaysDenied k = Failed NotAllowedError"

definition busyThenFree :: "nat \<Rightarrow> attempt_outcome" where
  "busyThenFree k = (if k < 2 then Failed NotReadableError else Acquired)"

text \<open>
  The page loads and the camera starts; three seconds pass with a detection tick after
  each; no tick sees an object or a hand.
\<close>

definition threeNegativeTicks :: "event list" where
  "threeNegativeTicks =
     [CameraReady (1 / 2),
      Elapse 1000, Tick (Detected []) [],
      Elapse 1000, Tick (Detected []) [],
      Elapse 1000, Tick (Detected []) []]"

text \<open>
  The page loads with a synthesizer that has voices and the camera starts; the user
  presses Enable Voice; the fallback timer fires when it is due, at 10500 ms, and two
  seconds later the page moves to the second step; the user clicks, and the utterance
  that click queues starts.
\<close>

definition speakingRun :: "event list" where
  "speakingRun =
     [InitSpeech True True, CameraReady (1 / 2), EnableVoice False,
      Elapse 10500, FallbackFires 0, Elapse 2000, AdvanceFires 0 (1 / 2) False,
      Click False, UtteranceStarts]"

section \<open>Runs of the detection player\<close>

lemma run_Nil: "run e s [] = s"
  by (simp add: run_def)

lemma run_Cons: "run e s (ev # evs) = run e (step e s ev) evs"
  by (simp add: run_def)

lemma run_snoc: "run e s (evs @ [ev]) = step e (run e s evs) ev"
  by (simp add: run_def)

lemma run_append: "run e s (evs @ evs') = run e (run e s evs) evs'"
  by (simp add: run_def)

section \<open>Progress stays between 0 and 100\<close>

lemma completeDetection_progress:
  "detectionProgress (completeDetection r s) = detectionProgress s"
  by (simp add: completeDetection_def Let_def split: option.split)

lemma checkStepCompletion_range:
  assumes "0 \<le> detectionProgress s \<and> detectionProgress s \<le> 100"
  shows "0 \<le> detectionProgress (checkStepCompletion e r ds ls s)
         \<and> detectionProgress (checkStepCompletion e r ds ls s) \<le> 100"
  using assms
  by (simp add: checkStepCompletion_def Let_def completeDetection_progress split: option.split)

lemma detectionTick_range:
  assumes "0 \<le> detectionProgress s \<and> detectionProgress s \<le> 100"
  shows "0 \<le> detectionProgress (detectionTick e res ls s)
         \<and> detectionProgress (detectionTick e res ls s) \<le> 100"
proof (cases "detectionInterval s")
  case None
  with assms show ?thesis by (simp add: detectionTick_def)
next
  case (Some r)
  show ?thesis
  proof (cases res)
    case DetectThrows
    with Some assms show ?thesis by (simp add: detectionTick_def intervalCallback_def)
  next
    case (Detected ds)
    have "0 \<le> detectionProgress (s\<lparr>objectDetections := ds, handLandmarks := ls\<rparr>)
          \<and> detectionProgress (s\<lparr>objectDetections := ds, handLandmarks := ls\<rparr>) \<le> 100"
      using assms by simp
    from checkStepCompletion_range [OF this, of e r ds ls] Some Detected assms
    show ?thesis by (simp add: detectionTick_def intervalCallback_def)
  qed
qed

lemma startDetection_progress:
  "detectionProgress (startDetection e r rnd s) = detectionProgress s"
  by (simp add: startDetection_def)

lemma fallbackFires_range:
  assumes "0 \<le> detectionProgress s \<and> detectionProgress s \<le> 100"
  shows "0 \<le> detectionProgress (fallbackFires k s)
         \<and> detectionProgress (fallbackFires k s) \<le> 100"
  using assms
  by (simp add: fallbackFires_def fallbackCallback_def completeDetection_progress)

lemma speakInstruction_progress:
  "detectionProgress (speakInstruction e r thr s) = detectionProgress s"
  by (simp add: speakInstruction_def split: option.split)

lemma moveToNextStep_range:
  assumes "0 \<le> detectionProgress s \<and> detectionProgress s \<le> 100"
  shows "0 \<le> detectionProgress (moveToNextStep e r rnd thr s)
         \<and> detectionProgress (moveToNextStep e r rnd thr s) \<le> 100"
  using assms
  by (simp add: moveToNextStep_def Let_def speakInstruction_progress startDetection_progress
      split: option.split)

lemma advanceFires_range:
  assumes "0 \<le> detectionProgress s \<and> detectionProgress s \<le> 100"
  shows "0 \<le> detectionProgress (advanceFires e k rnd thr s)
         \<and> detectionProgress (advanceFires e k rnd thr s) \<le> 100"
proof (cases "k < length (advanceTimeouts s) \<and> due (advanceTimeouts s ! k) \<le> now s")
  case True
  have "0 \<le> detectionProgress (s\<lparr>advanceTimeouts := dropNth k (advanceTimeouts s)\<rparr>)
        \<and> detectionProgress (s\<lparr>advanceTimeouts := dropNth k (advanceTimeouts s)\<rparr>) \<le> 100"
    using assms by simp
  from moveToNextStep_range [OF this] True show ?thesis
    by (simp add: advanceFires_def)
next
  case False
  then have "advanceFires e k rnd thr s = s" by (auto simp add: advanceFires_def)
  with assms show ?thesis by simp
qed

lemma click_progress: "detectionProgress (click e thr s) = detectionProgress s"
  by (simp add: click_def handleFirstInteraction_def speakInstruction_progress
      split: option.split)

lemma enableVoice_progress: "detectionProgress (enableVoice e thr s) = detectionProgress s"
  by (simp add: enableVoice_def click_progress)

lemma elapse_progress: "detectionProgress (elapse dt s) = detectionProgress s"
  by (simp add: elapse_def)

lemma currentStepEffect_progress:
  "detectionProgress (currentStepEffect e before s) = detectionProgress s"
  by (simp add: currentStepEffect_def)

lemma react_range:
  assumes "0 \<le> detectionProgress s \<and> detectionProgress s \<le> 100"
  shows "0 \<le> detectionProgress (react e s ev) \<and> detectionProgress (react e s ev) \<le> 100"
proof (cases ev)
  case (CameraReady rnd)
  with assms show ?thesis by (simp add: startDetection_progress)
next
  case (Tick res ls)
  with detectionTick_range [OF assms] show ?thesis by simp
next
  case (Elapse dt)
  with assms show ?thesis by (simp add: elapse_progress)
next
  case (FallbackFires k)
  with fallbackFires_range [OF assms] show ?thesis by simp
next
  case (AdvanceFires k rnd thr)
  with advanceFires_range [OF assms] show ?thesis by simp
next
  case (Click thr)
  with assms show ?thesis by (simp add: click_progress)
next
  case (EnableVoice thr)
  with assms show ?thesis by (simp add: enableVoice_progress)
qed (use assms in simp_all)

lemma step_range:
  assumes "0 \<le> detectionProgress s \<and> detectionProgress s \<le> 100"
  shows "0 \<le> detectionProgress (step e s ev) \<and> detectionProgress (step e s ev) \<le> 100"
  using react_range [OF assms, of e ev]
  by (simp add: step_def currentStepEffect_progress)

lemma run_range:
  assumes "0 \<le> detectionProgress s \<and> detectionProgress s \<le> 100"
  shows "0 \<le> detectionProgress (run e s evs) \<and> detectionProgress (run e s evs) \<le> 100"
  using assms
proof (induction evs arbitrary: s)
  case Nil
  then show ?case by (simp add: run_Nil)
next
  case (Cons ev evs)
  from Cons.IH [OF step_range [OF Cons.prems]] show ?case by (simp add: run_Cons)
qed

text \<open>
  Claim C2.  Whatever the task and whatever happens after the page has loaded (ticks
  with any evidence, in any number, the fallback timer, the advance to the next step,
  clicks, events of the synthesizer), the progress score is at least 0 and at most 100.
\<close>

theorem C2_progress_in_range:
  "0 \<le> detectionProgress (run e (initialSession e) evs)
   \<and> detectionProgress (run e (initialSession e) evs) \<le> 100"
  by (rule run_range) (simp add: initialSession_def)

text \<open>
  On the first step of \<open>exampleTask\<close>, twelve ticks that see a toothbrush take the
  progress to 100 and no further; seven ticks that see nothing then take it to 86.
\<close>

theorem C2_progress_in_range_witness:
  "detectionProgress
     (run exampleEnv (initialSession exampleEnv)
        (CameraReady (1 / 2) # replicate 12 (Tick (Detected [toothbrushAt 120 (62 / 100)]) []))) = 100
   \<and> detectionProgress
       (run exampleEnv (initialSession exampleEnv)
          (CameraReady (1 / 2) # replicate 12 (Tick (Detected [toothbrushAt 120 (62 / 100)]) [])
           @ replicate 7 (Tick (Detected []) []))) = 86
   \<and> detectionProgress (run exampleEnv (initialSession exampleEnv) threeNegativeTicks) = 0
   \<and> 0 \<le> detectionProgress (run exampleEnv (initialSession exampleEnv) threeNegativeTicks)
   \<and> detectionProgress (run exampleEnv (initialSession exampleEnv) threeNegativeTicks) \<le> 100"
proof -
  have a: "detectionProgress
     (run exampleEnv (initialSession exampleEnv)
        (CameraReady (1 / 2) # replicate 12 (Tick (Detected [toothbrushAt 120 (62 / 100)]) []))) = 100"
    by code_simp
  have b: "detectionProgress
       (run exampleEnv (initialSession exampleEnv)
          (CameraReady (1 / 2) # replicate 12 (Tick (Detected [toothbrushAt 120 (62 / 100)]) [])
           @ replicate 7 (Tick (Detected []) []))) = 86"
    by code_simp
  have c: "detectionProgress (run exampleEnv (initialSession exampleEnv) threeNegativeTicks) = 0"
    by code_simp
  from a b c C2_progress_in_range [of exampleEnv threeNegativeTicks]
  show ?thesis by simp
qed

section \<open>The increments of the progress score\<close>

lemma checkStepCompletion_brush:
  assumes "currentStep e r = Some stp" and "getActionTypeForStep (step_id stp) = ''brush_teeth''"
  shows "detectionProgress (checkStepCompletion e r ds ls s)
         = (if toothbrushDetected ds \<and> (isToothbrushInUpperFrame e ds \<or> isHandNearMouth e ls)
            then min (detectionProgress s + (if isHandNearMouth e ls then 25 else 15)) 100
            else max (detectionProgress s - 5) 0)"
  using assms
  by (auto simp add: checkStepCompletion_def completeDetection_progress Let_def)

lemma checkStepCompletion_default:
  assumes "currentStep e r = Some stp" and "getActionTypeForStep (step_id stp) \<noteq> ''brush_teeth''"
  shows "detectionProgress (checkStepCompletion e r ds ls s)
         = (if 0 < length ds \<or> 0 < length ls
            then min (detectionProgress s + 10) 100
            else max (detectionProgress s - 2) 0)"
  using assms
  by (auto simp add: checkStepCompletion_def completeDetection_progress Let_def)

text \<open>
  Claim C6, as the code has it.  On a tick with positive evidence the progress grows by
  an amount that depends on the action type of the step the callback sees, and never
  beyond 100.  For a \<open>brush_teeth\<close> step: by 25 when a toothbrush above confidence 0.6 is
  seen together with the hand-near-mouth signal, by 15 when such a toothbrush is in the
  upper 60% of the frame without that signal.  For a step of any other action type: by 10
  whenever there is a detection or a hand.  This holds for the callback of every render.
\<close>

theorem C6_increment_amounts:
  assumes "currentStep e r = Some stp"
  shows
  "(getActionTypeForStep (step_id stp) = ''brush_teeth''
      \<and> toothbrushDetected ds \<and> isHandNearMouth e ls \<longrightarrow>
      detectionProgress (checkStepCompletion e r ds ls s) = min (detectionProgress s + 25) 100)
   \<and> (getActionTypeForStep (step_id stp) = ''brush_teeth''
        \<and> toothbrushDetected ds \<and> isToothbrushInUpperFrame e ds \<and> \<not> isHandNearMouth e ls \<longrightarrow>
      detectionProgress (checkStepCompletion e r ds ls s) = min (detectionProgress s + 15) 100)
   \<and> (getActionTypeForStep (step_id stp) \<noteq> ''brush_teeth''
        \<and> (0 < length ds \<or> 0 < length ls) \<longrightarrow>
      detectionProgress (checkStepCompletion e r ds ls s) = min (detectionProgress s + 10) 100)"
  using checkStepCompletion_brush [OF assms, of ds ls s]
    checkStepCompletion_default [OF assms, of ds ls s]
  by auto

text \<open>On a brushing step a toothbrush at confidence 0.62 whose box starts at 120 in a frame
  480 high, with a hand near the mouth, takes the progress from 0 to 25; without the
  hand, to 15; from 90 the same tick stops at 100.\<close>

theorem C6_increment_amounts_witness:
  "detectionProgress
     (checkStepCompletion exampleEnv brushingRender [toothbrushAt 120 (62 / 100)] oneHand
        (initialSession exampleEnv)) = 25
   \<and> detectionProgress
       (checkStepCompletion exampleEnv brushingRender [toothbrushAt 120 (62 / 100)] []
          (initialSession exampleEnv)) = 15
   \<and> detectionProgress
       (checkStepCompletion exampleEnv brushingRender [toothbrushAt 120 (62 / 100)] oneHand
          ((initialSession exampleEnv)\<lparr>detectionProgress := 90\<rparr>)) = 100"
proof -
  have s: "currentStep exampleEnv brushingRender = Some (exampleTask ! 1)"
    by code_simp
  have p: "detectionProgress (initialSession exampleEnv) = 0"
    by (simp add: initialSession_def)
  have a: "getActionTypeForStep (step_id (exampleTask ! 1)) = ''brush_teeth''"
    by code_simp
  have d: "toothbrushDetected [toothbrushAt 120 (62 / 100)]"
    "isToothbrushInUpperFrame exampleEnv [toothbrushAt 120 (62 / 100)]"
    "isHandNearMouth exampleEnv oneHand" "\<not> isHandNearMouth exampleEnv []"
    by code_simp+
  from a d p
    C6_increment_amounts [OF s, of "[toothbrushAt 120 (62 / 100)]" oneHand
      "initialSession exampleEnv"]
    C6_increment_amounts [OF s, of "[toothbrushAt 120 (62 / 100)]" "[]"
      "initialSession exampleEnv"]
    C6_increment_amounts [OF s, of "[toothbrushAt 120 (62 / 100)]" oneHand
      "(initialSession exampleEnv)\<lparr>detectionProgress := 90\<rparr>"]
  show ?thesis by simp
qed

text \<open>
  The claim as written, 15 or 25 on every tick with positive evidence, fails on a step
  outside the \<open>brush_teeth\<close> category.  After the page has loaded with \<open>exampleTask\<close> and
  the camera has started, the first tick sees the toothbrush of the claim together with a
  hand, two signals at once, on \<open>step-1\<close>: the progress goes from 0 to 10.
\<close>

theorem C6_default_step_counterexample:
  "getActionTypeForStep (step_id (exampleTask ! 0)) = ''pickup_toothbrush''
   \<and> currentStep exampleEnv mountRender = Some (exampleTask ! 0)
   \<and> toothbrushDetected [toothbrushAt 120 (62 / 100)]
   \<and> isToothbrushInUpperFrame exampleEnv [toothbrushAt 120 (62 / 100)]
   \<and> isHandNearMouth exampleEnv oneHand
   \<and> detectionProgress (run exampleEnv (initialSession exampleEnv) [CameraReady (1 / 2)]) = 0
   \<and> detectionProgress
       (run exampleEnv (initialSession exampleEnv)
          [CameraReady (1 / 2), Elapse 1000,
           Tick (Detected [toothbrushAt 120 (62 / 100)]) oneHand]) = 10"
  by code_simp

section \<open>What completes a step\<close>

lemma checkStepCompletion_negative:
  assumes "currentStep e r = Some stp" and "\<not> positiveEvidence e stp ds ls"
  shows "checkStepCompletion e r ds ls s
         = s\<lparr>detectionProgress :=
               max (detectionProgress s
                    - (if getActionTypeForStep (step_id stp) = ''brush_teeth'' then 5 else 2)) 0\<rparr>"
proof (cases "getActionTypeForStep (step_id stp) = ''brush_teeth''")
  case True
  with assms(2) have "\<not> (toothbrushDetected ds \<and> isToothbrushInUpperFrame e ds)"
    and "\<not> (toothbrushDetected ds \<and> isHandNearMouth e ls)"
    by (simp_all add: positiveEvidence_def)
  with True assms(1) show ?thesis
    by (cases "toothbrushDetected ds") (simp_all add: checkStepCompletion_def Let_def)
next
  case False
  with assms(2) have "\<not> (0 < length ds \<or> 0 < length ls)"
    by (simp add: positiveEvidence_def)
  with False assms(1) show ?thesis
    by (simp add: checkStepCompletion_def Let_def)
qed

lemma stepKey_progress:
  "stepKey e (s\<lparr>objectDetections := ds, handLandmarks := ls, detectionProgress := p\<rparr>)
   = stepKey e s"
  by (simp add: stepKey_def split: option.split)

lemma negative_tick:
  assumes "detectionInterval s = Some r" and "currentStep e r = Some stp"
    and "\<not> positiveEvidence e stp ds ls"
  shows "\<exists>p. (0 \<le> detectionProgress s \<longrightarrow> 0 \<le> p \<and> p \<le> detectionProgress s)
         \<and> (step e s (Tick (Detected ds) ls) = s\<lparr>detectionProgress := p\<rparr>
              \<or> step e s (Tick (Detected ds) ls)
                = s\<lparr>objectDetections := ds, handLandmarks := ls, detectionProgress := p\<rparr>)"
proof (cases "videoHeight e = None \<or> \<not> modelLoaded e \<or> seenIsStepComplete r")
  case True
  with assms(1) have "step e s (Tick (Detected ds) ls) = s"
    by (simp add: step_def detectionTick_def intervalCallback_def currentStepEffect_def)
  then have "(0 \<le> detectionProgress s \<longrightarrow>
                0 \<le> detectionProgress s \<and> detectionProgress s \<le> detectionProgress s)
             \<and> (step e s (Tick (Detected ds) ls)
                  = s\<lparr>detectionProgress := detectionProgress s\<rparr>
                  \<or> step e s (Tick (Detected ds) ls)
                    = s\<lparr>objectDetections := ds, handLandmarks := ls,
                        detectionProgress := detectionProgress s\<rparr>)"
    by simp
  then show ?thesis by blast
next
  case False
  let ?p = "max (detectionProgress s
                 - (if getActionTypeForStep (step_id stp) = ''brush_teeth'' then 5 else 2)) 0"
  from False obtain h where "videoHeight e = Some h" and "modelLoaded e"
    and "\<not> seenIsStepComplete r"
    by auto
  with assms(1)
    checkStepCompletion_negative [OF assms(2,3),
      of "s\<lparr>objectDetections := ds, handLandmarks := ls\<rparr>"]
  have "react e s (Tick (Detected ds) ls)
        = s\<lparr>objectDetections := ds, handLandmarks := ls, detectionProgress := ?p\<rparr>"
    by (simp add: detectionTick_def intervalCallback_def)
  then have "step e s (Tick (Detected ds) ls)
        = s\<lparr>objectDetections := ds, handLandmarks := ls, detectionProgress := ?p\<rparr>"
    by (simp add: step_def currentStepEffect_def stepKey_progress)
  moreover have "0 \<le> detectionProgress s \<longrightarrow> 0 \<le> ?p \<and> ?p \<le> detectionProgress s"
    by simp
  ultimately show ?thesis by blast
qed

lemma negative_ticks:
  assumes "detectionInterval s = Some r" and "currentStep e r = Some stp"
    and "list_all (\<lambda>t. \<not> positiveEvidence e stp (fst t) (snd t)) ticks"
  shows "isStepComplete (run e s (map (\<lambda>t. Tick (Detected (fst t)) (snd t)) ticks))
           = isStepComplete s
         \<and> advanceTimeouts (run e s (map (\<lambda>t. Tick (Detected (fst t)) (snd t)) ticks))
           = advanceTimeouts s
         \<and> stepIndex (run e s (map (\<lambda>t. Tick (Detected (fst t)) (snd t)) ticks))
           = stepIndex s
         \<and> (0 \<le> detectionProgress s \<longrightarrow>
              0 \<le> detectionProgress (run e s (map (\<lambda>t. Tick (Detected (fst t)) (snd t)) ticks))
              \<and> detectionProgress (run e s (map (\<lambda>t. Tick (Detected (fst t)) (snd t)) ticks))
                  \<le> detectionProgress s)"
  using assms(1,3)
proof (induction ticks arbitrary: s)
  case Nil
  show ?case by (simp add: run_Nil)
next
  case (Cons t ticks)
  from Cons.prems have neg: "\<not> positiveEvidence e stp (fst t) (snd t)"
    and rest: "list_all (\<lambda>t. \<not> positiveEvidence e stp (fst t) (snd t)) ticks"
    by simp_all
  from negative_tick [OF Cons.prems(1) assms(2) neg]
  obtain p where b: "0 \<le> detectionProgress s \<longrightarrow> 0 \<le> p \<and> p \<le> detectionProgress s"
    and p: "step e s (Tick (Detected (fst t)) (snd t)) = s\<lparr>detectionProgress := p\<rparr>
      \<or> step e s (Tick (Detected (fst t)) (snd t))
        = s\<lparr>objectDetections := fst t, handLandmarks := snd t, detectionProgress := p\<rparr>"
    by blast
  let ?s = "step e s (Tick (Detected (fst t)) (snd t))"
  from p Cons.prems(1) have i: "detectionInterval ?s = Some r" by auto
  from p have same: "isStepComplete ?s = isStepComplete s"
    "advanceTimeouts ?s = advanceTimeouts s" "stepIndex ?s = stepIndex s"
    by auto
  from p have q: "detectionProgress ?s = p" by auto
  from Cons.IH [OF i rest] same b q show ?case by (auto simp add: run_Cons)
qed

text \<open>
  Claim C1, as the code has it.  The two completion rules of the claim stand in two
  different players.  The detection player keeps the progress score and has no attempt
  cap: a tick whose evidence is not positive for the step its callback sees leaves the
  step as it is, and so does any number of such ticks in a row: the step is not
  completed, no advance to the next step is scheduled, the step index stays, and a
  progress of 0 stays 0.  The
  OpenCV task player keeps no progress score; each of its steps has an attempt cap, its
  \<open>maxAttempts\<close>, and 3 when a step has none: the caps of the six steps are 3, 3, 3, 6, 6
  and 3.
\<close>

theorem C1_completion_rule:
  assumes "detectionInterval s = Some r" and "currentStep e r = Some stp"
    and "list_all (\<lambda>t. \<not> positiveEvidence e stp (fst t) (snd t)) ticks"
  shows
  "isStepComplete (run e s (map (\<lambda>t. Tick (Detected (fst t)) (snd t)) ticks))
     = isStepComplete s
   \<and> advanceTimeouts (run e s (map (\<lambda>t. Tick (Detected (fst t)) (snd t)) ticks))
     = advanceTimeouts s
   \<and> stepIndex (run e s (map (\<lambda>t. Tick (Detected (fst t)) (snd t)) ticks)) = stepIndex s
   \<and> (detectionProgress s = 0 \<longrightarrow>
        detectionProgress (run e s (map (\<lambda>t. Tick (Detected (fst t)) (snd t)) ticks)) = 0)
   \<and> (maxAttempts st = None \<longrightarrow> attemptCap st = 3)
   \<and> map attemptCap brushingTeethTask = [3, 3, 3, 6, 6, 3]"
proof -
  have "maxAttempts st = None \<longrightarrow> attemptCap st = 3"
    by (simp add: attemptCap_def)
  moreover have "map attemptCap brushingTeethTask = [3, 3, 3, 6, 6, 3]"
    by (simp add: attemptCap_def brushingTeethTask_def)
  ultimately show ?thesis using negative_ticks [OF assms] by auto
qed

text \<open>
  The page with \<open>exampleTask\<close> after the camera has started: four ticks that see nothing,
  or a toothbrush too low in the frame on the brushing step, do not complete the step.
\<close>

theorem C1_completion_rule_witness:
  "detectionInterval (run exampleEnv (initialSession exampleEnv) [CameraReady (1 / 2)])
     = Some mountRender
   \<and> currentStep exampleEnv mountRender = Some (exampleTask ! 0)
   \<and> \<not> positiveEvidence exampleEnv (exampleTask ! 0) [] []
   \<and> \<not> isStepComplete
         (run exampleEnv (run exampleEnv (initialSession exampleEnv) [CameraReady (1 / 2)])
            (map (\<lambda>t. Tick (Detected (fst t)) (snd t)) [([], []), ([], []), ([], []), ([], [])]))
   \<and> attemptCap \<lparr>ps_id = ''step-7'', maxAttempts = None\<rparr> = 3"
proof -
  let ?s = "run exampleEnv (initialSession exampleEnv) [CameraReady (1 / 2)]"
  have i: "detectionInterval ?s = Some mountRender"
    by code_simp
  have c: "currentStep exampleEnv mountRender = Some (exampleTask ! 0)"
    by code_simp
  have n: "list_all (\<lambda>t. \<not> positiveEvidence exampleEnv (exampleTask ! 0) (fst t) (snd t))
             [([], []), ([], []), ([], []), ([], [])]"
    by code_simp
  have m: "maxAttempts \<lparr>ps_id = ''step-7'', maxAttempts = None\<rparr> = None"
    by simp
  have f: "\<not> isStepComplete ?s"
    by code_simp
  have q: "\<not> positiveEvidence exampleEnv (exampleTask ! 0) [] []"
    by code_simp
  from C1_completion_rule [OF i c n, of "\<lparr>ps_id = ''step-7'', maxAttempts = None\<rparr>"] m f i c q
  show ?thesis by simp
qed

text \<open>
  The claim as written fails on its own scenario.  The page loads with \<open>exampleTask\<close>, the
  camera starts, and three seconds pass with a tick after each that sees neither an
  object nor a hand.  The progress is 0 throughout, and after the third tick the step is
  still not complete: the page is on its first step, no advance is scheduled, and the
  fallback timer, due at 10500 ms, is still pending.
\<close>

theorem C1_three_negative_ticks_counterexample:
  "\<not> isStepComplete (run exampleEnv (initialSession exampleEnv) threeNegativeTicks)
   \<and> detectionProgress (run exampleEnv (initialSession exampleEnv) threeNegativeTicks) = 0
   \<and> stepIndex (run exampleEnv (initialSession exampleEnv) threeNegativeTicks) = 0
   \<and> advanceTimeouts (run exampleEnv (initialSession exampleEnv) threeNegativeTicks) = []
   \<and> now (run exampleEnv (initialSession exampleEnv) threeNegativeTicks) = 3000
   \<and> map due (fallbackTimers (run exampleEnv (initialSession exampleEnv) threeNegativeTicks))
     = [10500]"
  by code_simp

section \<open>The fallback timer\<close>

lemma randomDelay_bounds:
  "0 \<le> rnd \<Longrightarrow> rnd < 1 \<Longrightarrow> 10000 \<le> randomDelay rnd \<and> randomDelay rnd < 11000"
  unfolding randomDelay_def
  by (simp add: floor_less_iff le_floor_iff)

lemma randomDelay_onto:
  assumes "10000 \<le> d" and "d < 11000"
  shows "\<exists>rnd. 0 \<le> rnd \<and> rnd < 1 \<and> randomDelay rnd = d"
proof -
  let ?rnd = "real_of_int (d - 10000) / 1000"
  from assms have "0 \<le> ?rnd" and "?rnd < 1" by simp_all
  moreover have "randomDelay ?rnd = d"
  proof -
    have "?rnd * 1000 = real_of_int (d - 10000)" by simp
    then have "\<lfloor>?rnd * 1000\<rfloor> = d - 10000" by (simp only: floor_of_int)
    then show ?thesis unfolding randomDelay_def by linarith
  qed
  ultimately show ?thesis by blast
qed

lemma checkStepCompletion_shape:
  "\<exists>p. checkStepCompletion e r ds ls s = s\<lparr>detectionProgress := p\<rparr>
       \<or> checkStepCompletion e r ds ls s = completeDetection r (s\<lparr>detectionProgress := p\<rparr>)"
proof (cases "currentStep e r")
  case None
  then have "checkStepCompletion e r ds ls s = s\<lparr>detectionProgress := detectionProgress s\<rparr>"
    by (simp add: checkStepCompletion_def)
  then show ?thesis by blast
next
  case (Some stp)
  define b where "b = (getActionTypeForStep (step_id stp) = ''brush_teeth'')"
  define pos where "pos = (if b
              then (toothbrushDetected ds \<and> isToothbrushInUpperFrame e ds)
                   \<or> (toothbrushDetected ds \<and> isHandNearMouth e ls)
              else 0 < length ds \<or> 0 < length ls)"
  define up where "up = (if b
             then min (detectionProgress s
                       + (if isHandNearMouth e ls \<and> toothbrushDetected ds then 25 else 15)) 100
             else min (detectionProgress s + 10) 100)"
  define down where
    "down = (if b then max (detectionProgress s - 5) 0 else max (detectionProgress s - 2) 0)"
  define high where "high = (80 \<le> seenDetectionProgress r)"
  have eq: "checkStepCompletion e r ds ls s
            = (if pos
               then (if high
                     then completeDetection r (s\<lparr>detectionProgress := up\<rparr>)
                     else s\<lparr>detectionProgress := up\<rparr>)
               else s\<lparr>detectionProgress := down\<rparr>)"
    using Some by (simp add: checkStepCompletion_def Let_def b_def pos_def up_def down_def high_def)
  show ?thesis
  proof (cases pos)
    case False
    with eq have "checkStepCompletion e r ds ls s = s\<lparr>detectionProgress := down\<rparr>"
      by simp
    then show ?thesis by blast
  next
    case pos: True
    show ?thesis
    proof (cases high)
      case True
      with eq pos have "checkStepCompletion e r ds ls s
                        = completeDetection r (s\<lparr>detectionProgress := up\<rparr>)"
        by simp
      then show ?thesis by blast
    next
      case False
      with eq pos have "checkStepCompletion e r ds ls s = s\<lparr>detectionProgress := up\<rparr>"
        by simp
      then show ?thesis by blast
    qed
  qed
qed

lemma completeDetection_now: "now (completeDetection r s) = now s"
  by (simp add: completeDetection_def Let_def split: option.split)

lemma completeDetection_complete: "isStepComplete (completeDetection r s)"
  by (simp add: completeDetection_def Let_def split: option.split)

lemma checkStepCompletion_now: "now (checkStepCompletion e r ds ls s) = now s"
  using checkStepCompletion_shape [of e r ds ls s]
  by (auto simp add: completeDetection_now)

lemma checkStepCompletion_timers:
  "isStepComplete (checkStepCompletion e r ds ls s)
   \<or> fallbackTimers (checkStepCompletion e r ds ls s) = fallbackTimers s"
  using checkStepCompletion_shape [of e r ds ls s]
  by (auto simp add: completeDetection_complete)

lemma detectionTick_now: "now (detectionTick e res ls s) = now s"
  by (simp add: detectionTick_def intervalCallback_def checkStepCompletion_now
      split: option.split detect_result.split)

lemma detectionTick_timers:
  "isStepComplete (detectionTick e res ls s)
   \<or> fallbackTimers (detectionTick e res ls s) = fallbackTimers s"
proof (cases "detectionInterval s")
  case None
  then show ?thesis by (simp add: detectionTick_def)
next
  case (Some r)
  show ?thesis
  proof (cases res)
    case DetectThrows
    with Some show ?thesis by (simp add: detectionTick_def intervalCallback_def)
  next
    case (Detected ds)
    from checkStepCompletion_timers
      [of e r ds ls "s\<lparr>objectDetections := ds, handLandmarks := ls\<rparr>"] Some Detected
    show ?thesis by (auto simp add: detectionTick_def intervalCallback_def)
  qed
qed

lemma startDetection_now: "now (startDetection e r rnd s) = now s"
  by (simp add: startDetection_def)

lemma startDetection_timers:
  "set (fallbackTimers s) \<subseteq> set (fallbackTimers (startDetection e r rnd s))"
  by (auto simp add: startDetection_def)

lemma startDetection_complete:
  "isStepComplete (startDetection e r rnd s) = isStepComplete s"
  by (simp add: startDetection_def)

lemma fallbackFires_now: "now (fallbackFires k s) = now s"
  by (simp add: fallbackFires_def fallbackCallback_def completeDetection_now)

lemma fallbackFires_timers:
  "isStepComplete (fallbackFires k s) \<or> fallbackTimers (fallbackFires k s) = fallbackTimers s"
  by (simp add: fallbackFires_def fallbackCallback_def completeDetection_complete)

lemma speakInstruction_now: "now (speakInstruction e r thr s) = now s"
  by (simp add: speakInstruction_def split: option.split)

lemma speakInstruction_timers:
  "fallbackTimers (speakInstruction e r thr s) = fallbackTimers s"
  by (simp add: speakInstruction_def split: option.split)

lemma moveToNextStep_now: "now (moveToNextStep e r rnd thr s) = now s"
  by (simp add: moveToNextStep_def Let_def speakInstruction_now startDetection_now
      split: option.split)

lemma moveToNextStep_timers:
  "set (fallbackTimers s) \<subseteq> set (fallbackTimers (moveToNextStep e r rnd thr s))"
proof (cases "task e")
  case None
  then show ?thesis by (simp add: moveToNextStep_def)
next
  case (Some steps)
  show ?thesis
  proof (cases "isLastStep e r")
    case True
    with Some show ?thesis by (simp add: moveToNextStep_def Let_def)
  next
    case False
    define s2 where "s2 = s\<lparr>instructionRepeatCount := 0, detectionProgress := 0,
        objectDetections := [], handLandmarks := [], stepIndex := seenStepIndex r + 1,
        isStepComplete := False, detectionStatus := ''Starting next step...'',
        timeLeft :=
          (if fixedMode e then customInterval e
           else (case (if seenStepIndex r + 1 < length steps
                       then defaultRepetition (steps ! (seenStepIndex r + 1))
                       else None) of
                   None \<Rightarrow> 15
                 | Some d \<Rightarrow> if d = 0 then 15 else d))\<rparr>"
    from Some False
    have "moveToNextStep e r rnd thr s = speakInstruction e r thr (startDetection e r rnd s2)"
      by (simp add: moveToNextStep_def Let_def s2_def)
    moreover have "fallbackTimers s2 = fallbackTimers s" by (simp add: s2_def)
    ultimately show ?thesis
      using startDetection_timers [of s2 e r rnd] by (simp add: speakInstruction_timers)
  qed
qed

lemma advanceFires_now: "now (advanceFires e k rnd thr s) = now s"
  by (simp add: advanceFires_def moveToNextStep_now)

lemma advanceFires_timers:
  "set (fallbackTimers s) \<subseteq> set (fallbackTimers (advanceFires e k rnd thr s))"
proof (cases "k < length (advanceTimeouts s) \<and> due (advanceTimeouts s ! k) \<le> now s")
  case True
  with moveToNextStep_timers
    [of "s\<lparr>advanceTimeouts := dropNth k (advanceTimeouts s)\<rparr>" e
      "held (advanceTimeouts s ! k)" rnd thr]
  show ?thesis by (simp add: advanceFires_def)
next
  case False
  then have "advanceFires e k rnd thr s = s" by (auto simp add: advanceFires_def)
  then show ?thesis by simp
qed

lemma click_now: "now (click e thr s) = now s"
  by (simp add: click_def handleFirstInteraction_def speakInstruction_now split: option.split)

lemma click_timers: "fallbackTimers (click e thr s) = fallbackTimers s"
  by (simp add: click_def handleFirstInteraction_def speakInstruction_timers
      split: option.split)

lemma enableVoice_now: "now (enableVoice e thr s) = now s"
  by (simp add: enableVoice_def click_now)

lemma enableVoice_timers: "fallbackTimers (enableVoice e thr s) = fallbackTimers s"
  by (simp add: enableVoice_def click_timers)

lemma elapse_timers: "fallbackTimers (elapse dt s) = fallbackTimers s"
  by (simp add: elapse_def)

lemma elapse_now:
  assumes "t \<in> set (fallbackTimers s)" and "now s \<le> due t"
  shows "now (elapse dt s) \<le> due t"
  using assms by (auto simp add: elapse_def list_all_iff)

text \<open>
  A fallback timer that is pending and not overdue: after any event it is still pending,
  or the step is complete; and the clock has not passed the time at which it is due.
\<close>

lemma react_pending:
  assumes "t \<in> set (fallbackTimers s)" and "now s \<le> due t"
  shows "now (react e s ev) \<le> due t
         \<and> (t \<in> set (fallbackTimers (react e s ev)) \<or> isStepComplete (react e s ev))"
proof (cases ev)
  case (CameraReady rnd)
  with assms
    startDetection_timers [of "s\<lparr>detectionStatus := ''Camera ready''\<rparr>" e mountRender rnd]
  show ?thesis
    by (auto simp add: startDetection_now)
next
  case (Tick res ls)
  with assms detectionTick_timers [of e res ls s] show ?thesis
    by (auto simp add: detectionTick_now)
next
  case (Elapse dt)
  with assms elapse_now [OF assms, of dt] show ?thesis
    by (simp add: elapse_timers)
next
  case (FallbackFires k)
  with assms fallbackFires_timers [of k s] show ?thesis
    by (auto simp add: fallbackFires_now)
next
  case (AdvanceFires k rnd thr)
  with assms advanceFires_timers [of s e k rnd thr] show ?thesis
    by (auto simp add: advanceFires_now)
next
  case (Click thr)
  with assms show ?thesis by (simp add: click_now click_timers)
next
  case (EnableVoice thr)
  with assms show ?thesis by (simp add: enableVoice_now enableVoice_timers)
qed (use assms in simp_all)

lemma step_pending:
  assumes "t \<in> set (fallbackTimers s)" and "now s \<le> due t"
  shows "now (step e s ev) \<le> due t
         \<and> (t \<in> set (fallbackTimers (step e s ev)) \<or> isStepComplete (step e s ev))"
  using react_pending [OF assms, of e ev]
  by (simp add: step_def currentStepEffect_def)

lemma run_pending:
  assumes "t \<in> set (fallbackTimers s)" and "now s \<le> due t"
  shows "(t \<in> set (fallbackTimers (run e s evs)) \<and> now (run e s evs) \<le> due t)
         \<or> (\<exists>k. k \<le> length evs \<and> isStepComplete (run e s (take k evs))
                 \<and> now (run e s (take k evs)) \<le> due t)"
proof (induction evs rule: rev_induct)
  case Nil
  with assms show ?case by (simp add: run_Nil)
next
  case (snoc ev evs)
  from snoc.IH show ?case
  proof
    assume p: "t \<in> set (fallbackTimers (run e s evs)) \<and> now (run e s evs) \<le> due t"
    from step_pending [of t "run e s evs" e ev] p
    have n: "now (run e s (evs @ [ev])) \<le> due t"
      and d: "t \<in> set (fallbackTimers (run e s (evs @ [ev])))
              \<or> isStepComplete (run e s (evs @ [ev]))"
      by (simp_all add: run_snoc)
    from d show ?thesis
    proof
      assume "t \<in> set (fallbackTimers (run e s (evs @ [ev])))"
      with n show ?thesis by blast
    next
      assume c: "isStepComplete (run e s (evs @ [ev]))"
      have "take (length (evs @ [ev])) (evs @ [ev]) = evs @ [ev]" by simp
      with c n have "length (evs @ [ev]) \<le> length (evs @ [ev])
          \<and> isStepComplete (run e s (take (length (evs @ [ev])) (evs @ [ev])))
          \<and> now (run e s (take (length (evs @ [ev])) (evs @ [ev]))) \<le> due t"
        by simp
      then show ?thesis by blast
    qed
  next
    assume "\<exists>k. k \<le> length evs \<and> isStepComplete (run e s (take k evs))
                 \<and> now (run e s (take k evs)) \<le> due t"
    then obtain k where k: "k \<le> length evs" "isStepComplete (run e s (take k evs))"
      "now (run e s (take k evs)) \<le> due t"
      by blast
    then have "take k (evs @ [ev]) = take k evs" by simp
    with k have "k \<le> length (evs @ [ev]) \<and> isStepComplete (run e s (take k (evs @ [ev])))
                 \<and> now (run e s (take k (evs @ [ev]))) \<le> due t"
      by simp
    then show ?thesis by blast
  qed
qed

lemma startDetection_schedules:
  assumes "videoHeight e \<noteq> None" and "modelLoaded e"
  shows "fallbackTimers (startDetection e r rnd s)
         = fallbackTimers s
           @ [\<lparr>timerId = nextTimer s, due = now s + randomDelay rnd, held = r\<rparr>]"
  using assms by (auto simp add: startDetection_def)

lemma fallbackFires_completes:
  assumes "k < length (fallbackTimers s)" and "due (fallbackTimers s ! k) \<le> now s"
  shows "isStepComplete (fallbackFires k s) \<and> detectionProgress (fallbackFires k s) = 100"
  using assms
  by (simp add: fallbackFires_def fallbackCallback_def completeDetection_complete
      completeDetection_progress)

text \<open>
  Claim C4.  When \<open>startDetection\<close> runs for a step (the video element and the model are
  there), it adds a fallback timer to the pending ones, due after a delay of 10000 ms
  plus the whole part of 1000 times \<open>Math.random()\<close>.  For every value of \<open>Math.random()\<close>
  the delay is at least 10000 ms and less than 11000 ms, and every whole number of
  milliseconds in that range is the delay for some value.  When a pending fallback timer
  fires, having become due, the step is complete and the progress is 100, whatever the
  progress was.  And the step's duration is bounded: whatever happens after
  \<open>startDetection\<close>, either the timer is still pending and the clock has not passed the
  time at which it is due, or the step has been complete at a moment not later than
  that time, which is less than 11 seconds after \<open>startDetection\<close>.
\<close>

theorem C4_fallback_timer:
  assumes "videoHeight e \<noteq> None" and "modelLoaded e" and "0 \<le> rnd" and "rnd < 1"
  shows
  "fallbackTimers (startDetection e r rnd s)
     = fallbackTimers s @ [\<lparr>timerId = nextTimer s, due = now s + randomDelay rnd, held = r\<rparr>]
   \<and> randomDelay rnd = 10000 + \<lfloor>rnd * 1000\<rfloor>
   \<and> 10000 \<le> randomDelay rnd \<and> randomDelay rnd < 11000
   \<and> (\<forall>d. 10000 \<le> d \<and> d < 11000 \<longrightarrow> (\<exists>x. 0 \<le> x \<and> x < 1 \<and> randomDelay x = d))
   \<and> (\<forall>q k. k < length (fallbackTimers q) \<and> due (fallbackTimers q ! k) \<le> now q \<longrightarrow>
         isStepComplete (fallbackFires k q) \<and> detectionProgress (fallbackFires k q) = 100)
   \<and> ((\<lparr>timerId = nextTimer s, due = now s + randomDelay rnd, held = r\<rparr>
          \<in> set (fallbackTimers (run e (startDetection e r rnd s) evs))
        \<and> now (run e (startDetection e r rnd s) evs) \<le> now s + randomDelay rnd)
       \<or> (\<exists>k. k \<le> length evs
               \<and> isStepComplete (run e (startDetection e r rnd s) (take k evs))
               \<and> now (run e (startDetection e r rnd s) (take k evs)) < now s + 11000))"
proof -
  let ?t = "\<lparr>timerId = nextTimer s, due = now s + randomDelay rnd, held = r\<rparr>"
  let ?s = "startDetection e r rnd s"
  have sch: "fallbackTimers ?s = fallbackTimers s @ [?t]"
    using assms(1,2) by (rule startDetection_schedules)
  have bounds: "10000 \<le> randomDelay rnd \<and> randomDelay rnd < 11000"
    using assms(3,4) by (rule randomDelay_bounds)
  have onto: "\<forall>d. 10000 \<le> d \<and> d < 11000 \<longrightarrow> (\<exists>x. 0 \<le> x \<and> x < 1 \<and> randomDelay x = d)"
    using randomDelay_onto by blast
  have fires: "\<forall>q k. k < length (fallbackTimers q) \<and> due (fallbackTimers q ! k) \<le> now q \<longrightarrow>
         isStepComplete (fallbackFires k q) \<and> detectionProgress (fallbackFires k q) = 100"
    using fallbackFires_completes by blast
  from sch have "?t \<in> set (fallbackTimers ?s)" by simp
  moreover from bounds have "now ?s \<le> due ?t" by (simp add: startDetection_now)
  ultimately have
    "(?t \<in> set (fallbackTimers (run e ?s evs)) \<and> now (run e ?s evs) \<le> due ?t)
     \<or> (\<exists>k. k \<le> length evs \<and> isStepComplete (run e ?s (take k evs))
             \<and> now (run e ?s (take k evs)) \<le> due ?t)"
    by (rule run_pending)
  then have dur:
    "(?t \<in> set (fallbackTimers (run e ?s evs)) \<and> now (run e ?s evs) \<le> now s + randomDelay rnd)
     \<or> (\<exists>k. k \<le> length evs \<and> isStepComplete (run e ?s (take k evs))
             \<and> now (run e ?s (take k evs)) < now s + 11000)"
  proof
    assume "?t \<in> set (fallbackTimers (run e ?s evs)) \<and> now (run e ?s evs) \<le> due ?t"
    then show ?thesis by simp
  next
    assume "\<exists>k. k \<le> length evs \<and> isStepComplete (run e ?s (take k evs))
             \<and> now (run e ?s (take k evs)) \<le> due ?t"
    then obtain k where "k \<le> length evs" "isStepComplete (run e ?s (take k evs))"
      "now (run e ?s (take k evs)) \<le> due ?t"
      by blast
    with bounds have "k \<le> length evs \<and> isStepComplete (run e ?s (take k evs))
             \<and> now (run e ?s (take k evs)) < now s + 11000"
      by simp
    then show ?thesis by blast
  qed
  have "randomDelay rnd = 10000 + \<lfloor>rnd * 1000\<rfloor>" by (simp add: randomDelay_def)
  with sch bounds onto fires dur show ?thesis by blast
qed

text \<open>
  The page with \<open>exampleTask\<close>, \<open>Math.random()\<close> giving one half: the timer is due at
  10500 ms; the clock cannot go to 10501 ms while it is pending; when it fires at 10500 ms
  the step is complete with progress 100, though no tick has seen anything.
\<close>

theorem C4_fallback_timer_witness:
  "videoHeight exampleEnv \<noteq> None \<and> modelLoaded exampleEnv
   \<and> fallbackTimers (startDetection exampleEnv mountRender (1 / 2) (initialSession exampleEnv))
     = [\<lparr>timerId = 1, due = 10500, held = mountRender\<rparr>]
   \<and> now (run exampleEnv (initialSession exampleEnv) [CameraReady (1 / 2), Elapse 10501]) = 0
   \<and> now (run exampleEnv (initialSession exampleEnv) [CameraReady (1 / 2), Elapse 10500]) = 10500
   \<and> \<not> isStepComplete
         (run exampleEnv (initialSession exampleEnv) [CameraReady (1 / 2), Elapse 10500])
   \<and> isStepComplete
       (run exampleEnv (initialSession exampleEnv)
          [CameraReady (1 / 2), Elapse 10500, FallbackFires 0])
   \<and> detectionProgress
       (run exampleEnv (initialSession exampleEnv)
          [CameraReady (1 / 2), Elapse 10500, FallbackFires 0]) = 100
   \<and> (\<exists>x. 0 \<le> x \<and> x < 1 \<and> randomDelay x = 10999)"
proof -
  have v: "videoHeight exampleEnv \<noteq> None" "modelLoaded exampleEnv"
    by (simp_all add: exampleEnv_def)
  have i: "fallbackTimers (initialSession exampleEnv) = []" "now (initialSession exampleEnv) = 0"
    "nextTimer (initialSession exampleEnv) = 1"
    by (simp_all add: initialSession_def)
  have a: "now (run exampleEnv (initialSession exampleEnv) [CameraReady (1 / 2), Elapse 10501]) = 0"
    by code_simp
  have b: "now (run exampleEnv (initialSession exampleEnv) [CameraReady (1 / 2), Elapse 10500])
           = 10500"
    by code_simp
  have c: "\<not> isStepComplete
         (run exampleEnv (initialSession exampleEnv) [CameraReady (1 / 2), Elapse 10500])"
    by code_simp
  have d: "isStepComplete
       (run exampleEnv (initialSession exampleEnv)
          [CameraReady (1 / 2), Elapse 10500, FallbackFires 0])"
    by code_simp
  have f: "detectionProgress
       (run exampleEnv (initialSession exampleEnv)
          [CameraReady (1 / 2), Elapse 10500, FallbackFires 0]) = 100"
    by code_simp
  have h: "(0 :: real) \<le> 1 / 2" "(1 :: real) / 2 < 1" by simp_all
  from C4_fallback_timer [OF v h, of mountRender "initialSession exampleEnv" "[]"]
  have "fallbackTimers (startDetection exampleEnv mountRender (1 / 2) (initialSession exampleEnv))
        = [\<lparr>timerId = 1, due = 10500, held = mountRender\<rparr>]"
    and "\<exists>x. 0 \<le> x \<and> x < 1 \<and> randomDelay x = 10999"
    using i by simp_all
  with v a b c d f show ?thesis by simp
qed

section \<open>The frame classifier never reports positive\<close>

lemma tryBlock_throws: "tryBlock cv canvas newMat = None"
  by (simp add: tryBlock_def cvtColor_def newMat_def)

text \<open>
  Claim C5 does not hold of the code.  Both classifiers pass the empty matrix \<open>src\<close> to
  \<open>cv.imread\<close> and do not keep the matrix it returns, so \<open>src\<close> is still empty when it
  is passed to \<open>cv.cvtColor\<close>, which throws; the \<open>catch\<close> returns false.  Hence, with
  OpenCV.js loaded, \<open>detectToothbrush\<close> returns false for every frame, and \<open>analyzeImage\<close>
  is false for every frame, whatever the number of edge pixels.  Without OpenCV.js,
  \<open>detectToothbrush\<close> does not return: the error of \<open>new window.cv.Mat()\<close> leaves the
  function.
\<close>

theorem C5_classifier_never_positive:
  "detectToothbrush (Some cv) canvas = Inr False
   \<and> analyzeImage window_cv r canvasPresent canvas = False
   \<and> detectToothbrush None canvas = Inl TypeError"
  by (simp add: detectToothbrush_def analyzeImage_def tryBlock_throws split: option.split)

text \<open>
  The scenario of the claim: \<open>exampleFrame\<close> has 1500 edge pixels, above the threshold
  1000, and both classifiers report negative.
\<close>

theorem C5_classifier_never_positive_witness:
  "edgeCount exampleCv exampleFrame = 1500
   \<and> threshold < edgeCount exampleCv exampleFrame
   \<and> detectToothbrush (Some exampleCv) exampleFrame = Inr False
   \<and> analyzeImage (Some exampleCv) (playerRender activePlayer) True exampleFrame = False"
proof -
  have c: "edgeCount exampleCv exampleFrame = 1500"
    by (simp add: edgeCount_def exampleCv_def exampleFrame_def countNonZero_def)
  from c C5_classifier_never_positive
    [of exampleCv exampleFrame "Some exampleCv" "playerRender activePlayer" True]
  show ?thesis by (simp add: threshold_def)
qed

section \<open>The attempt count and the cap\<close>





text \<open>
  In the page as it is written this interval is never started: the video element is
  rendered only while the camera is active, and \<open>startCamera\<close> marks the camera active
  only when the video element is there.
\<close>

lemma startCamera_initial: "startCamera granted initialPlayer = initialPlayer"
  by (simp add: startCamera_def initialPlayer_def)

section \<open>One narration at a time\<close>

lemma length_dropNth: "length (dropNth k xs) \<le> length xs"
  by (simp add: dropNth_def)

lemma length_dropNth_less: "k < length xs \<Longrightarrow> Suc (length (dropNth k xs)) = length xs"
  by (simp add: dropNth_def)

lemma list_all_dropNth: "list_all P xs \<Longrightarrow> list_all P (dropNth k xs)"
  by (auto simp add: dropNth_def list_all_iff dest: in_set_takeD in_set_dropD)

lemma load_cancelSpeech: "load (cancelSpeech n) = load n"
  by (simp add: load_def cancelSpeech_def Let_def split: option.split)

lemma load_playAudioFallback: "load (playAudioFallback text n) = load n + 1"
  by (simp add: load_def playAudioFallback_def)

lemma speak_ineffective: "\<not> seenUserInteracted r \<Longrightarrow> speak r thr text n = n"
  by (simp add: speak_def)

lemma load_speak:
  "load (speak r thr text n) \<le> load n + (if seenUserInteracted r then 1 else 0)"
proof (cases "seenUserInteracted r")
  case False
  then show ?thesis by (simp add: speak_ineffective)
next
  case True
  define n1 where "n1 = cancelSpeech n"
  define n2 where "n2 = n1\<lparr>speechUtteranceRef := Some (nextUtterance n1),
                       onend := insert (nextUtterance n1) (onend n1),
                       uttText := (uttText n1)(nextUtterance n1 := text),
                       nextUtterance := Suc (nextUtterance n1)\<rparr>"
  have l1: "load n1 = load n" by (simp add: n1_def load_cancelSpeech)
  have l2: "load n2 = load n1" by (simp add: n2_def load_def)
  have l3: "load (n2\<lparr>queue := queue n2 @ [nextUtterance n1]\<rparr>) = load n2 + 1"
    by (simp add: load_def)
  have eq: "speak r thr text n
            = (if seenTtsAvailable r \<and> synthPresent n1
               then (if thr then playAudioFallback text n2
                     else n2\<lparr>queue := queue n2 @ [nextUtterance n1]\<rparr>)
               else playAudioFallback text n1)"
    using True by (simp add: speak_def Let_def n1_def n2_def)
  from l1 l2 l3 True show ?thesis
    unfolding eq by (simp add: load_playAudioFallback)
qed

lemma load_interacted: "load (n\<lparr>userInteracted := b\<rparr>) = load n"
  by (simp add: load_def)

lemma load_checkVoices: "load (checkVoices hasVoices n) = load n"
  by (simp add: load_def checkVoices_def)

lemma load_initSpeech: "load (initSpeech hasSynth hasVoices n) = load n"
  by (simp add: load_def initSpeech_def checkVoices_def)

lemma load_utteranceStarts: "load (utteranceStarts n) = load n"
  by (simp add: load_def utteranceStarts_def split: list.split)

lemma load_onendHandler: "load (onendHandler u n) = load n"
  by (simp add: load_def onendHandler_def)

lemma load_onerrorHandler: "load (onerrorHandler u n) = load n + 1"
  by (simp add: load_def onerrorHandler_def playAudioFallback_def)

lemma load_utteranceEnds: "load (utteranceEnds n) \<le> load n"
proof (cases "queue n")
  case Nil
  then show ?thesis by (simp add: utteranceEnds_def)
next
  case (Cons u rest)
  have "load (n\<lparr>queue := rest, headStarted := False\<rparr>) \<le> load n"
    using Cons by (simp add: load_def)
  with Cons show ?thesis by (simp add: utteranceEnds_def load_onendHandler)
qed

lemma load_utteranceFails: "load (utteranceFails n) \<le> load n"
proof (cases "queue n")
  case Nil
  then show ?thesis by (simp add: utteranceFails_def)
next
  case (Cons u rest)
  have "load (n\<lparr>queue := rest, headStarted := False\<rparr>) + 1 = load n"
    using Cons by (simp add: load_def)
  with Cons show ?thesis by (simp add: utteranceFails_def load_onerrorHandler)
qed

lemma load_cancelNotice: "load (cancelNotice k notice n) \<le> load n"
proof (cases "k < length (cancelled n)")
  case False
  then show ?thesis by (simp add: cancelNotice_def)
next
  case True
  let ?n1 = "n\<lparr>cancelled := dropNth k (cancelled n)\<rparr>"
  from length_dropNth_less [OF True] have "load ?n1 + 1 = load n"
    by (simp add: load_def)
  with True show ?thesis
    by (cases notice) (simp_all add: cancelNotice_def Let_def load_onerrorHandler load_onendHandler)
qed

lemma load_clipEnds: "load (clipEnds k n) \<le> load n"
  using length_dropNth [of k "clips n"] by (simp add: load_def clipEnds_def)

lemma activeNarrations_load: "activeNarrations n \<le> load n"
  by (simp add: activeNarrations_def load_def)

lemma mountRender_silent: "\<not> seenUserInteracted mountRender"
  by (simp add: mountRender_def)

lemma quiet_refl: "heldByMount s \<Longrightarrow> quiet s s"
  by (simp add: quiet_def)

lemma quiet_trans: "quiet s s' \<Longrightarrow> quiet s' s'' \<Longrightarrow> quiet s s''"
  by (auto simp add: quiet_def)

lemma quiet_progress:
  "heldByMount s \<Longrightarrow> quiet s (s\<lparr>detectionProgress := p\<rparr>)"
  by (simp add: quiet_def heldByMount_def)

lemma quiet_completeDetection:
  assumes "heldByMount s"
  shows "quiet s (completeDetection mountRender s)"
  using assms
  by (simp add: quiet_def heldByMount_def completeDetection_def Let_def mountRender_def
      load_cancelSpeech)

lemma quiet_checkStepCompletion:
  assumes "heldByMount s"
  shows "quiet s (checkStepCompletion e mountRender ds ls s)"
proof -
  from checkStepCompletion_shape [of e mountRender ds ls s]
  obtain p where "checkStepCompletion e mountRender ds ls s = s\<lparr>detectionProgress := p\<rparr>
       \<or> checkStepCompletion e mountRender ds ls s
         = completeDetection mountRender (s\<lparr>detectionProgress := p\<rparr>)"
    by blast
  moreover have q: "quiet s (s\<lparr>detectionProgress := p\<rparr>)"
    using assms by (rule quiet_progress)
  moreover from q have "heldByMount (s\<lparr>detectionProgress := p\<rparr>)"
    by (simp add: quiet_def)
  then have "quiet (s\<lparr>detectionProgress := p\<rparr>)
               (completeDetection mountRender (s\<lparr>detectionProgress := p\<rparr>))"
    by (rule quiet_completeDetection)
  ultimately show ?thesis using quiet_trans by metis
qed

lemma quiet_detectionTick:
  assumes "heldByMount s"
  shows "quiet s (detectionTick e res ls s)"
proof (cases "detectionInterval s")
  case None
  with assms show ?thesis by (simp add: detectionTick_def quiet_refl)
next
  case (Some r)
  with assms have r: "r = mountRender" by (simp add: heldByMount_def)
  show ?thesis
  proof (cases res)
    case DetectThrows
    with Some assms show ?thesis
      by (simp add: detectionTick_def intervalCallback_def quiet_refl)
  next
    case (Detected ds)
    let ?s = "s\<lparr>objectDetections := ds, handLandmarks := ls\<rparr>"
    from assms have q: "quiet s ?s" by (simp add: quiet_def heldByMount_def)
    then have "heldByMount ?s" by (simp add: quiet_def)
    then have "quiet ?s (checkStepCompletion e mountRender ds ls ?s)"
      by (rule quiet_checkStepCompletion)
    with q have "quiet s (checkStepCompletion e mountRender ds ls ?s)"
      by (rule quiet_trans)
    with Some r Detected assms show ?thesis
      by (simp add: detectionTick_def intervalCallback_def quiet_refl)
  qed
qed

lemma quiet_startDetection:
  assumes "heldByMount s"
  shows "quiet s (startDetection e mountRender rnd s)"
  using assms by (simp add: quiet_def heldByMount_def startDetection_def)

lemma quiet_fallbackFires:
  assumes "heldByMount s"
  shows "quiet s (fallbackFires k s)"
proof (cases "k < length (fallbackTimers s) \<and> due (fallbackTimers s ! k) \<le> now s")
  case False
  then have "fallbackFires k s = s" by (auto simp add: fallbackFires_def)
  with assms show ?thesis by (simp add: quiet_refl)
next
  case True
  let ?s = "s\<lparr>fallbackTimers := dropNth k (fallbackTimers s),
              detectionStatus := ''Task detected!'', detectionProgress := 100\<rparr>"
  from assms True have h: "held (fallbackTimers s ! k) = mountRender"
    by (simp add: heldByMount_def list_all_length)
  from assms have q: "quiet s ?s"
    by (simp add: quiet_def heldByMount_def list_all_dropNth)
  then have "heldByMount ?s" by (simp add: quiet_def)
  then have "quiet ?s (completeDetection mountRender ?s)" by (rule quiet_completeDetection)
  with q have "quiet s (completeDetection mountRender ?s)" by (rule quiet_trans)
  with True h show ?thesis by (simp add: fallbackFires_def fallbackCallback_def)
qed

lemma quiet_speakInstruction:
  assumes "heldByMount s"
  shows "quiet s (speakInstruction e mountRender thr s)"
  using assms
  by (simp add: quiet_def heldByMount_def speakInstruction_def speak_ineffective
      mountRender_silent split: option.split)

lemma quiet_moveToNextStep:
  assumes "heldByMount s"
  shows "quiet s (moveToNextStep e mountRender rnd thr s)"
proof (cases "task e")
  case None
  with assms show ?thesis by (simp add: moveToNextStep_def quiet_refl)
next
  case (Some steps)
  let ?s1 = "s\<lparr>instructionRepeatCount := 0, detectionProgress := 0,
               objectDetections := [], handLandmarks := []\<rparr>"
  from assms have q1: "quiet s ?s1" by (simp add: quiet_def heldByMount_def)
  show ?thesis
  proof (cases "isLastStep e mountRender")
    case True
    with Some q1 show ?thesis by (simp add: moveToNextStep_def Let_def)
  next
    case False
    define s2 where "s2 = s\<lparr>instructionRepeatCount := 0, detectionProgress := 0,
        objectDetections := [], handLandmarks := [], stepIndex := seenStepIndex mountRender + 1,
        isStepComplete := False, detectionStatus := ''Starting next step...'',
        timeLeft :=
          (if fixedMode e then customInterval e
           else (case (if seenStepIndex mountRender + 1 < length steps
                       then defaultRepetition (steps ! (seenStepIndex mountRender + 1))
                       else None) of
                   None \<Rightarrow> 15
                 | Some d \<Rightarrow> if d = 0 then 15 else d))\<rparr>"
    from Some False
    have eq: "moveToNextStep e mountRender rnd thr s
              = speakInstruction e mountRender thr (startDetection e mountRender rnd s2)"
      by (simp add: moveToNextStep_def Let_def s2_def)
    from assms have q2: "quiet s s2"
      by (simp add: quiet_def heldByMount_def s2_def mountRender_def)
    then have "heldByMount s2" by (simp add: quiet_def)
    then have q3: "quiet s2 (startDetection e mountRender rnd s2)"
      by (rule quiet_startDetection)
    then have "heldByMount (startDetection e mountRender rnd s2)" by (simp add: quiet_def)
    then have "quiet (startDetection e mountRender rnd s2)
                 (speakInstruction e mountRender thr (startDetection e mountRender rnd s2))"
      by (rule quiet_speakInstruction)
    with q2 q3 show ?thesis unfolding eq using quiet_trans by metis
  qed
qed

lemma quiet_advanceFires:
  assumes "heldByMount s"
  shows "quiet s (advanceFires e k rnd thr s)"
proof (cases "k < length (advanceTimeouts s) \<and> due (advanceTimeouts s ! k) \<le> now s")
  case False
  then have "advanceFires e k rnd thr s = s" by (auto simp add: advanceFires_def)
  with assms show ?thesis by (simp add: quiet_refl)
next
  case True
  let ?s = "s\<lparr>advanceTimeouts := dropNth k (advanceTimeouts s)\<rparr>"
  from assms True have h: "held (advanceTimeouts s ! k) = mountRender"
    by (simp add: heldByMount_def list_all_length)
  from assms have q: "quiet s ?s"
    by (simp add: quiet_def heldByMount_def list_all_dropNth)
  then have "heldByMount ?s" by (simp add: quiet_def)
  then have "quiet ?s (moveToNextStep e mountRender rnd thr ?s)"
    by (rule quiet_moveToNextStep)
  with q have "quiet s (moveToNextStep e mountRender rnd thr ?s)" by (rule quiet_trans)
  with True h show ?thesis by (simp add: advanceFires_def)
qed

lemma quiet_elapse:
  assumes "heldByMount s"
  shows "quiet s (elapse dt s)"
  using assms by (simp add: quiet_def heldByMount_def elapse_def)

lemma quiet_potential:
  assumes "quiet s s'"
  shows "heldByMount s' \<and> (stepIndex s' = stepIndex s \<or> stepIndex s' = 1)
         \<and> potential s' \<le> potential s"
  using assms by (simp add: quiet_def potential_def effective_def)

lemma speakInstruction_load:
  "load (speech (speakInstruction e r thr s))
   \<le> load (speech s) + (if seenUserInteracted r then 1 else 0)"
proof (cases "currentStep e r")
  case None
  then show ?thesis by (simp add: speakInstruction_def)
next
  case (Some stp)
  with load_speak [of r thr "audioPrompt stp" "speech s"] show ?thesis
    by (simp add: speakInstruction_def)
qed

lemma speakInstruction_frame:
  "clickListener (speakInstruction e r thr s) = clickListener s
   \<and> stepIndex (speakInstruction e r thr s) = stepIndex s
   \<and> heldByMount (speakInstruction e r thr s) = heldByMount s"
  by (simp add: speakInstruction_def heldByMount_def split: option.split)

lemma click_inv:
  assumes "heldByMount s"
  shows "heldByMount (click e thr s) \<and> stepIndex (click e thr s) = stepIndex s
         \<and> potential (click e thr s) \<le> potential s"
proof (cases "clickListener s")
  case None
  with assms show ?thesis by (simp add: click_def)
next
  case (Some r)
  let ?s = "s\<lparr>speech := (speech s)\<lparr>userInteracted := True\<rparr>, clickListener := None\<rparr>"
  have c: "click e thr s = speakInstruction e r thr ?s"
    using Some by (simp add: click_def handleFirstInteraction_def)
  have h: "heldByMount ?s" using assms by (simp add: heldByMount_def)
  have l: "load (speech ?s) = load (speech s)" by (simp add: load_interacted)
  have p: "potential s = load (speech s) + (if seenUserInteracted r then 1 else 0)"
    using Some by (simp add: potential_def effective_def)
  from speakInstruction_frame [of e r thr ?s]
  have f: "clickListener (speakInstruction e r thr ?s) = None"
    "stepIndex (speakInstruction e r thr ?s) = stepIndex s"
    "heldByMount (speakInstruction e r thr ?s)"
    using h by simp_all
  from f(1) have "potential (speakInstruction e r thr ?s)
                  = load (speech (speakInstruction e r thr ?s))"
    by (simp add: potential_def effective_def)
  with speakInstruction_load [of e r thr ?s] l p
  have "potential (speakInstruction e r thr ?s) \<le> potential s" by simp
  with f c show ?thesis by simp
qed

lemma enableVoice_inv:
  assumes "heldByMount s"
  shows "heldByMount (enableVoice e thr s) \<and> stepIndex (enableVoice e thr s) = stepIndex s
         \<and> potential (enableVoice e thr s) \<le> potential s"
proof -
  let ?s = "s\<lparr>speech := (speech s)\<lparr>userInteracted := True\<rparr>\<rparr>"
  from assms have h: "heldByMount ?s" by (simp add: heldByMount_def)
  have "potential ?s = potential s" "stepIndex ?s = stepIndex s"
    by (simp_all add: potential_def effective_def load_interacted)
  with click_inv [OF h, of e thr] show ?thesis by (simp add: enableVoice_def)
qed

lemma speech_inv:
  assumes "heldByMount s" and "load n \<le> load (speech s)"
  shows "heldByMount (s\<lparr>speech := n\<rparr>) \<and> stepIndex (s\<lparr>speech := n\<rparr>) = stepIndex s
         \<and> potential (s\<lparr>speech := n\<rparr>) \<le> potential s"
  using assms by (simp add: heldByMount_def potential_def effective_def)

lemma speech_status_inv:
  assumes "heldByMount s" and "load n \<le> load (speech s)"
  shows "heldByMount (s\<lparr>speech := n, detectionStatus := d\<rparr>)
         \<and> stepIndex (s\<lparr>speech := n, detectionStatus := d\<rparr>) = stepIndex s
         \<and> potential (s\<lparr>speech := n, detectionStatus := d\<rparr>) \<le> potential s"
  using assms by (simp add: heldByMount_def potential_def effective_def)

text \<open>
  No event raises the potential, and no event takes the step index anywhere but to 1.
\<close>

lemma react_inv:
  assumes "heldByMount s"
  shows "heldByMount (react e s ev)
         \<and> (stepIndex (react e s ev) = stepIndex s \<or> stepIndex (react e s ev) = 1)
         \<and> potential (react e s ev) \<le> potential s"
proof (cases ev)
  case (CameraReady rnd)
  let ?s = "s\<lparr>detectionStatus := ''Camera ready''\<rparr>"
  from assms have q: "quiet s ?s" by (simp add: quiet_def heldByMount_def)
  then have "heldByMount ?s" by (simp add: quiet_def)
  then have "quiet ?s (startDetection e mountRender rnd ?s)" by (rule quiet_startDetection)
  with q have "quiet s (startDetection e mountRender rnd ?s)" by (rule quiet_trans)
  from quiet_potential [OF this] CameraReady show ?thesis by simp
next
  case (Tick res ls)
  with quiet_potential [OF quiet_detectionTick [OF assms, of e res ls]] show ?thesis by simp
next
  case (Elapse dt)
  with quiet_potential [OF quiet_elapse [OF assms, of dt]] show ?thesis by simp
next
  case (FallbackFires k)
  with quiet_potential [OF quiet_fallbackFires [OF assms, of k]] show ?thesis by simp
next
  case (AdvanceFires k rnd thr)
  with quiet_potential [OF quiet_advanceFires [OF assms, of e k rnd thr]] show ?thesis by simp
next
  case (Click thr)
  with click_inv [OF assms, of e thr] show ?thesis by simp
next
  case (EnableVoice thr)
  with enableVoice_inv [OF assms, of e thr] show ?thesis by simp
next
  case (InitSpeech hasSynth hasVoices)
  have "load (initSpeech hasSynth hasVoices (speech s)) \<le> load (speech s)"
    by (simp add: load_initSpeech)
  show ?thesis
  proof (cases hasSynth)
    case True
    with speech_inv [OF assms \<open>load (initSpeech hasSynth hasVoices (speech s)) \<le> load (speech s)\<close>]
      InitSpeech
    show ?thesis by simp
  next
    case False
    with speech_status_inv
      [OF assms \<open>load (initSpeech hasSynth hasVoices (speech s)) \<le> load (speech s)\<close>]
      InitSpeech
    show ?thesis by simp
  qed
next
  case (VoicesChanged hasVoices)
  have "load (checkVoices hasVoices (speech s)) \<le> load (speech s)"
    by (simp add: load_checkVoices)
  from speech_inv [OF assms this] VoicesChanged assms show ?thesis by simp
next
  case UtteranceStarts
  have "load (utteranceStarts (speech s)) \<le> load (speech s)"
    by (simp add: load_utteranceStarts)
  from speech_status_inv [OF assms this] UtteranceStarts assms show ?thesis by simp
next
  case UtteranceEnds
  from speech_inv [OF assms load_utteranceEnds] UtteranceEnds show ?thesis by simp
next
  case UtteranceFails
  from speech_inv [OF assms load_utteranceFails] UtteranceFails show ?thesis by simp
next
  case (CancelNotice k notice)
  from speech_inv [OF assms load_cancelNotice] CancelNotice show ?thesis by simp
next
  case (ClipEnds k)
  from speech_inv [OF assms load_clipEnds] ClipEnds show ?thesis by simp
qed

lemma stepKey_index: "stepIndex s' = stepIndex s \<Longrightarrow> stepKey e s' = stepKey e s"
  by (simp add: stepKey_def split: option.split)

lemma step_inv:
  assumes "pageInv s"
  shows "pageInv (step e s ev)"
proof -
  let ?s = "react e s ev"
  from assms have h: "heldByMount s" and i: "stepIndex s \<le> 1"
    and p: "potential s \<le> (if stepIndex s = 0 then 0 else 1)"
    by (simp_all add: pageInv_def)
  from react_inv [OF h, of e ev]
  have h': "heldByMount ?s" and i': "stepIndex ?s = stepIndex s \<or> stepIndex ?s = 1"
    and p': "potential ?s \<le> potential s"
    by simp_all
  have inv: "pageInv ?s"
  proof -
    from i i' have "stepIndex ?s \<le> 1" by auto
    moreover have "potential ?s \<le> (if stepIndex ?s = 0 then 0 else 1)"
    proof (cases "stepIndex ?s = 0")
      case True
      with i' have "stepIndex s = 0" by auto
      with p p' True show ?thesis by simp
    next
      case False
      from p have "potential s \<le> 1" by (simp split: if_splits)
      with p' False show ?thesis by simp
    qed
    ultimately show ?thesis using h' by (simp add: pageInv_def)
  qed
  show ?thesis
  proof (cases "stepKey e ?s = stepKey e s")
    case True
    with inv show ?thesis by (simp add: step_def currentStepEffect_def)
  next
    case False
    with stepKey_index [of ?s s e] have "stepIndex ?s \<noteq> stepIndex s" by blast
    with i' i have one: "stepIndex ?s = 1" and "stepIndex s = 0" by auto
    with p p' have "potential ?s = 0" by simp
    then have l: "load (speech ?s) = 0" by (simp add: potential_def)
    let ?l = "case stepKey e ?s of None \<Rightarrow> None | Some i \<Rightarrow> Some (renderOf ?s)"
    have eq: "step e s ev = ?s\<lparr>clickListener := ?l\<rparr>"
      using False by (simp add: step_def currentStepEffect_def)
    from h' have "heldByMount (?s\<lparr>clickListener := ?l\<rparr>)" by (simp add: heldByMount_def)
    moreover from one have "stepIndex (?s\<lparr>clickListener := ?l\<rparr>) = 1" by simp
    moreover from l have "potential (?s\<lparr>clickListener := ?l\<rparr>) \<le> 1"
      by (simp add: potential_def)
    ultimately show ?thesis unfolding eq by (simp add: pageInv_def)
  qed
qed

lemma initial_inv: "pageInv (initialSession e)"
  by (simp add: pageInv_def heldByMount_def potential_def effective_def load_def
      initialSession_def initialNarration_def mountRender_def split: option.split)

lemma run_inv: "pageInv s \<Longrightarrow> pageInv (run e s evs)"
proof (induction evs arbitrary: s)
  case Nil
  then show ?case by (simp add: run_Nil)
next
  case (Cons ev evs)
  from Cons.IH [OF step_inv [OF Cons.prems]] show ?case by (simp add: run_Cons)
qed

lemma reachable_one_narration: "activeNarrations (speech (run e (initialSession e) evs)) \<le> 1"
proof -
  have "pageInv (run e (initialSession e) evs)"
    by (rule run_inv [OF initial_inv])
  then have "potential (run e (initialSession e) evs) \<le> 1"
    by (simp add: pageInv_def split: if_splits)
  then have "load (speech (run e (initialSession e) evs)) \<le> 1"
    by (simp add: potential_def)
  with activeNarrations_load [of "speech (run e (initialSession e) evs)"]
  show ?thesis by simp
qed

lemma cancelSpeech_speaking:
  assumes "speaking n"
  shows "queue (cancelSpeech n) = []"
  using assms by (simp add: cancelSpeech_def Let_def split: option.split)

lemma cancelSpeech_detaches:
  assumes "speechUtteranceRef n = Some u"
  shows "u \<notin> onend (cancelSpeech n) \<and> speechUtteranceRef (cancelSpeech n) = None"
  using assms by (simp add: cancelSpeech_def Let_def)

lemma cancelSpeech_onend: "onend (cancelSpeech n) \<subseteq> onend n"
  by (auto simp add: cancelSpeech_def Let_def split: option.split)

lemma cancelSpeech_next: "nextUtterance (cancelSpeech n) = nextUtterance n"
  by (simp add: cancelSpeech_def Let_def split: option.split)

lemma speak_queue:
  assumes "seenUserInteracted r" and "speaking n"
  shows "queue (speak r thr text n) = [] \<or> queue (speak r thr text n) = [nextUtterance n]"
  using assms cancelSpeech_speaking [OF assms(2)]
  by (simp add: speak_def Let_def playAudioFallback_def cancelSpeech_next)

lemma speak_detaches:
  assumes "seenUserInteracted r" and "speechUtteranceRef n = Some u" and "u \<noteq> nextUtterance n"
  shows "u \<notin> onend (speak r thr text n)"
  using assms cancelSpeech_detaches [OF assms(2)]
  by (simp add: speak_def Let_def playAudioFallback_def cancelSpeech_next)

text \<open>
  Claim C7.  On the page, whatever happens after it has loaded, at most one narration is
  active at any moment: the utterances held by the synthesizer and the fallback clips
  that are playing are together at most one.  A call of \<open>speak\<close> in a render in which the
  user has interacted begins with \<open>cancelSpeech\<close>: an utterance that is being spoken is
  removed from the synthesizer, the completion callback of the utterance the page refers
  to is detached, and after the call the synthesizer holds nothing but the new
  utterance.  A call of \<open>speak\<close> in a render in which the user has not interacted does
  nothing.
\<close>

theorem C7_one_narration:
  "activeNarrations (speech (run e (initialSession e) evs)) \<le> 1
   \<and> (speaking n \<longrightarrow> queue (cancelSpeech n) = [])
   \<and> (speechUtteranceRef n = Some u \<longrightarrow>
        u \<notin> onend (cancelSpeech n) \<and> speechUtteranceRef (cancelSpeech n) = None)
   \<and> (seenUserInteracted r \<and> speaking n \<longrightarrow>
        queue (speak r thr text n) = [] \<or> queue (speak r thr text n) = [nextUtterance n])
   \<and> (seenUserInteracted r \<and> speechUtteranceRef n = Some u \<and> u \<noteq> nextUtterance n \<longrightarrow>
        u \<notin> onend (speak r thr text n))
   \<and> (\<not> seenUserInteracted r \<longrightarrow> speak r thr text n = n)"
  using reachable_one_narration [of e evs] cancelSpeech_speaking [of n]
    cancelSpeech_detaches [of n u] speak_queue [of r n thr "text"]
    speak_detaches [of r n u thr "text"] speak_ineffective [of r thr "text" n]
  by blast

text \<open>
  After \<open>speakingRun\<close> the synthesizer is speaking utterance 0, which the page refers to,
  and nothing else is active.  \<open>cancelSpeech\<close> empties the queue and detaches the
  callback; a call of \<open>speak\<close> in the current render leaves utterance 1 alone in the
  queue.
\<close>

theorem C7_one_narration_witness:
  "speaking (speech (run exampleEnv (initialSession exampleEnv) speakingRun))
   \<and> speechUtteranceRef (speech (run exampleEnv (initialSession exampleEnv) speakingRun)) = Some 0
   \<and> queue (speech (run exampleEnv (initialSession exampleEnv) speakingRun)) = [0]
   \<and> activeNarrations (speech (run exampleEnv (initialSession exampleEnv) speakingRun)) = 1
   \<and> seenUserInteracted (renderOf (run exampleEnv (initialSession exampleEnv) speakingRun))
   \<and> queue (cancelSpeech (speech (run exampleEnv (initialSession exampleEnv) speakingRun))) = []
   \<and> 0 \<notin> onend (cancelSpeech (speech (run exampleEnv (initialSession exampleEnv) speakingRun)))
   \<and> queue (speak (renderOf (run exampleEnv (initialSession exampleEnv) speakingRun)) False
              ''Brush your teeth''
              (speech (run exampleEnv (initialSession exampleEnv) speakingRun))) = [1]
   \<and> 0 \<notin> onend (speak (renderOf (run exampleEnv (initialSession exampleEnv) speakingRun)) False
              ''Brush your teeth''
              (speech (run exampleEnv (initialSession exampleEnv) speakingRun)))"
proof -
  let ?s = "run exampleEnv (initialSession exampleEnv) speakingRun"
  have a: "speaking (speech ?s)" by code_simp
  have b: "speechUtteranceRef (speech ?s) = Some 0" by code_simp
  have c: "queue (speech ?s) = [0]" by code_simp
  have d: "activeNarrations (speech ?s) = 1" by code_simp
  have f: "seenUserInteracted (renderOf ?s)" by code_simp
  have g: "nextUtterance (speech ?s) = 1" by code_simp
  have h: "queue (speak (renderOf ?s) False ''Brush your teeth'' (speech ?s)) = [1]"
    by code_simp
  from C7_one_narration [of exampleEnv speakingRun "speech ?s" 0 "renderOf ?s" False
      "''Brush your teeth''"] a b c d f g h
  show ?thesis by simp
qed

section \<open>Incomplete replies of the assistant\<close>

lemma getParentGuidance_missing:
  assumes "model prompt ctx = Parsed response"
    and "getProp response ''support'' = None \<or> getProp response ''actionPlan'' = None
         \<or> getProp response ''therapySuggestions'' = None"
  shows "getParentGuidance model prompt ctx = Inl (GuidanceError retryMessage)"
  using assms
  by (cases response) (auto simp add: getParentGuidance_def)

text \<open>
  Claim C8.  When the parsed reply of the model lacks \<open>support\<close>, \<open>actionPlan\<close> or
  \<open>therapySuggestions\<close>, \<open>getParentGuidance\<close> does not return it: it fails with the
  message asking to try again.  The chat page then appends its fixed error message after
  the parent's message, and no guidance message.
\<close>

theorem C8_incomplete_response_rejected:
  "(model prompt ctx = Parsed response
      \<and> (getProp response ''support'' = None \<or> getProp response ''actionPlan'' = None
          \<or> getProp response ''therapySuggestions'' = None) \<longrightarrow>
      getParentGuidance model prompt ctx = Inl (GuidanceError retryMessage))
   \<and> (trim (input st) \<noteq> [] \<and> \<not> isLoading st \<and> \<not> isGeneralQuery (input st)
        \<and> model (input st) (contextOf stringify (messages st)) = Parsed response
        \<and> (getProp response ''support'' = None \<or> getProp response ''actionPlan'' = None
            \<or> getProp response ''therapySuggestions'' = None) \<longrightarrow>
      fst (handleSend model stringify st)
      = st\<lparr>messages := messages st @ [parentMessage (input st), errorReply],
            input := [], isLoading := False\<rparr>)"
proof (intro conjI impI)
  assume "model prompt ctx = Parsed response
      \<and> (getProp response ''support'' = None \<or> getProp response ''actionPlan'' = None
          \<or> getProp response ''therapySuggestions'' = None)"
  then show "getParentGuidance model prompt ctx = Inl (GuidanceError retryMessage)"
    using getParentGuidance_missing [of model prompt ctx response] by blast
next
  assume h: "trim (input st) \<noteq> [] \<and> \<not> isLoading st \<and> \<not> isGeneralQuery (input st)
        \<and> model (input st) (contextOf stringify (messages st)) = Parsed response
        \<and> (getProp response ''support'' = None \<or> getProp response ''actionPlan'' = None
            \<or> getProp response ''therapySuggestions'' = None)"
  then have "getParentGuidance model (input st) (contextOf stringify (messages st))
             = Inl (GuidanceError retryMessage)"
    using getParentGuidance_missing [of model "input st" "contextOf stringify (messages st)" response]
    by blast
  with h show "fst (handleSend model stringify st)
      = st\<lparr>messages := messages st @ [parentMessage (input st), errorReply],
            input := [], isLoading := False\<rparr>"
    by (simp add: handleSend_def Let_def)
qed

text \<open>A reply with \<open>support\<close> and \<open>actionPlan\<close> and without \<open>therapySuggestions\<close>.\<close>

theorem C8_incomplete_response_rejected_witness:
  "getProp incompleteReply ''therapySuggestions'' = None
   \<and> getParentGuidance (\<lambda>p c. Parsed incompleteReply) ''My child is upset'' []
       = Inl (GuidanceError ''Failed to get guidance. Please try again.'')
   \<and> messages (fst (handleSend (\<lambda>p c. Parsed incompleteReply) exampleStringify exampleChat))
       = [parentMessage ''My child is upset'', errorReply]"
proof -
  have m: "getProp incompleteReply ''therapySuggestions'' = None"
    by (simp add: incompleteReply_def)
  have t: "trim (input exampleChat) \<noteq> []"
    by (simp add: exampleChat_def trim_def isWhiteSpace_def)
  have g: "\<not> isGeneralQuery (input exampleChat)"
    unfolding exampleChat_def by code_simp
  have l: "\<not> isLoading exampleChat" "input exampleChat = ''My child is upset''"
    "messages exampleChat = []"
    by (simp_all add: exampleChat_def)
  from m t g l
    C8_incomplete_response_rejected [of "\<lambda>p c. Parsed incompleteReply" "''My child is upset''" "[]"
      incompleteReply exampleChat exampleStringify]
  show ?thesis by (simp add: retryMessage_def)
qed

section \<open>Camera retries\<close>

lemmas initCamera_unfold =
  initCamera.simps [of _ 1] initCamera.simps [of _ "1 + 1"] initCamera.simps [of _ "1 + 1 + 1"]

lemma initCamera_first:
  "acquire 1 = Acquired \<Longrightarrow>
   cameraActive (initCamera acquire 1 initialCamera)
   \<and> cameraError (initCamera acquire 1 initialCamera) = None
   \<and> tries (initCamera acquire 1 initialCamera) = 1
   \<and> waits (initCamera acquire 1 initialCamera) = []"
  unfolding initCamera_unfold
  by (simp add: Let_def initialCamera_def del: One_nat_def)

lemma initCamera_second:
  "acquire 1 = Failed f1 \<Longrightarrow> acquire 2 = Acquired \<Longrightarrow>
   cameraActive (initCamera acquire 1 initialCamera)
   \<and> cameraError (initCamera acquire 1 initialCamera) = None
   \<and> tries (initCamera acquire 1 initialCamera) = 2
   \<and> waits (initCamera acquire 1 initialCamera) = [1000]"
  unfolding initCamera_unfold
  by (simp add: Let_def initialCamera_def del: One_nat_def)

lemma initCamera_third:
  "acquire 1 = Failed f1 \<Longrightarrow> acquire 2 = Failed f2 \<Longrightarrow> acquire 3 = Acquired \<Longrightarrow>
   cameraActive (initCamera acquire 1 initialCamera)
   \<and> cameraError (initCamera acquire 1 initialCamera) = None
   \<and> tries (initCamera acquire 1 initialCamera) = 3
   \<and> waits (initCamera acquire 1 initialCamera) = [1000, 2000]"
  unfolding initCamera_unfold
  by (simp add: Let_def initialCamera_def del: One_nat_def)

lemma initCamera_terminal:
  "acquire 1 = Failed f1 \<Longrightarrow> acquire 2 = Failed f2 \<Longrightarrow> acquire 3 = Failed f3 \<Longrightarrow>
   \<not> cameraActive (initCamera acquire 1 initialCamera)
   \<and> cameraError (initCamera acquire 1 initialCamera) = Some (errorMessage f3)
   \<and> cameraStatus (initCamera acquire 1 initialCamera) = errorMessage f3
   \<and> tries (initCamera acquire 1 initialCamera) = 3
   \<and> waits (initCamera acquire 1 initialCamera) = [1000, 2000]"
  unfolding initCamera_unfold
  by (simp add: Let_def initialCamera_def del: One_nat_def)

lemma upt_examples:
  "[1 ..< (1::nat)] = []" "[1 ..< (2::nat)] = [1]" "[1 ..< (3::nat)] = [1, 2]"
  by (simp_all add: upt_rec)

lemma initCamera_bounded:
  "tries (initCamera acquire 1 initialCamera) \<le> 3
   \<and> waits (initCamera acquire 1 initialCamera)
     = map (\<lambda>k. 1000 * k) [1 ..< tries (initCamera acquire 1 initialCamera)]"
proof (cases "acquire 1")
  case Acquired
  with initCamera_first [of acquire] show ?thesis by (simp add: upt_examples del: One_nat_def)
next
  case f1: (Failed f1)
  show ?thesis
  proof (cases "acquire 2")
    case Acquired
    with f1 initCamera_second [of acquire f1] show ?thesis
      by (simp add: upt_examples del: One_nat_def)
  next
    case f2: (Failed f2)
    show ?thesis
    proof (cases "acquire 3")
      case Acquired
      with f1 f2 initCamera_third [of acquire f1 f2] show ?thesis
        by (simp add: upt_examples del: One_nat_def)
    next
      case (Failed f3)
      with f1 f2 initCamera_terminal [of acquire f1 f2 f3] show ?thesis
        by (simp add: upt_examples del: One_nat_def)
    qed
  qed
qed

text \<open>
  Claim C9.  Started with its default attempt 1, \<open>initCamera\<close> makes at most three
  attempts; before attempt \<open>k + 1\<close> it waits \<open>1000 * k\<close> milliseconds, so the waits are
  1000 and 2000; the first attempt that succeeds ends the sequence with the camera
  active; after three failures the camera is inactive and the error shown is the
  message of the third failure: No camera found, Permission denied or Camera in use for
  the three named failures.
\<close>

theorem C9_camera_retry:
  "tries (initCamera acquire 1 initialCamera) \<le> 3
   \<and> waits (initCamera acquire 1 initialCamera)
     = map (\<lambda>k. 1000 * k) [1 ..< tries (initCamera acquire 1 initialCamera)]
   \<and> (acquire 1 = Acquired \<longrightarrow>
        cameraActive (initCamera acquire 1 initialCamera)
        \<and> tries (initCamera acquire 1 initialCamera) = 1)
   \<and> (acquire 1 = Failed f1 \<and> acquire 2 = Acquired \<longrightarrow>
        cameraActive (initCamera acquire 1 initialCamera)
        \<and> tries (initCamera acquire 1 initialCamera) = 2)
   \<and> (acquire 1 = Failed f1 \<and> acquire 2 = Failed f2 \<and> acquire 3 = Acquired \<longrightarrow>
        cameraActive (initCamera acquire 1 initialCamera)
        \<and> tries (initCamera acquire 1 initialCamera) = 3)
   \<and> (acquire 1 = Failed f1 \<and> acquire 2 = Failed f2 \<and> acquire 3 = Failed f3 \<longrightarrow>
        \<not> cameraActive (initCamera acquire 1 initialCamera)
        \<and> cameraError (initCamera acquire 1 initialCamera) = Some (errorMessage f3)
        \<and> tries (initCamera acquire 1 initialCamera) = 3
        \<and> waits (initCamera acquire 1 initialCamera) = [1000, 2000])
   \<and> errorMessage NotFoundError = ''No camera found''
   \<and> errorMessage NotAllowedError = ''Permission denied''
   \<and> errorMessage NotReadableError = ''Camera in use''"
proof -
  have a: "acquire 1 = Acquired \<longrightarrow>
        cameraActive (initCamera acquire 1 initialCamera)
        \<and> tries (initCamera acquire 1 initialCamera) = 1"
    using initCamera_first [of acquire] by blast
  have b: "acquire 1 = Failed f1 \<and> acquire 2 = Acquired \<longrightarrow>
        cameraActive (initCamera acquire 1 initialCamera)
        \<and> tries (initCamera acquire 1 initialCamera) = 2"
    using initCamera_second [of acquire f1] by blast
  have c: "acquire 1 = Failed f1 \<and> acquire 2 = Failed f2 \<and> acquire 3 = Acquired \<longrightarrow>
        cameraActive (initCamera acquire 1 initialCamera)
        \<and> tries (initCamera acquire 1 initialCamera) = 3"
    using initCamera_third [of acquire f1 f2] by blast
  have d: "acquire 1 = Failed f1 \<and> acquire 2 = Failed f2 \<and> acquire 3 = Failed f3 \<longrightarrow>
        \<not> cameraActive (initCamera acquire 1 initialCamera)
        \<and> cameraError (initCamera acquire 1 initialCamera) = Some (errorMessage f3)
        \<and> tries (initCamera acquire 1 initialCamera) = 3
        \<and> waits (initCamera acquire 1 initialCamera) = [1000, 2000]"
    using initCamera_terminal [of acquire f1 f2 f3] by blast
  have e: "errorMessage NotFoundError = ''No camera found''
   \<and> errorMessage NotAllowedError = ''Permission denied''
   \<and> errorMessage NotReadableError = ''Camera in use''"
    by simp
  from initCamera_bounded [of acquire] a b c d e show ?thesis
    by (intro conjI) (erule conjE | assumption)+
qed

theorem C9_camera_retry_witness:
  "\<not> cameraActive (initCamera alwaysDenied 1 initialCamera)
   \<and> cameraError (initCamera alwaysDenied 1 initialCamera) = Some ''Permission denied''
   \<and> tries (initCamera alwaysDenied 1 initialCamera) = 3
   \<and> waits (initCamera alwaysDenied 1 initialCamera) = [1000, 2000]
   \<and> cameraActive (initCamera busyThenFree 1 initialCamera)
   \<and> tries (initCamera busyThenFree 1 initialCamera) = 2"
proof -
  have a: "alwaysDenied 1 = Failed NotAllowedError \<and> alwaysDenied 2 = Failed NotAllowedError
    \<and> alwaysDenied 3 = Failed NotAllowedError"
    by (simp add: alwaysDenied_def)
  have b: "busyThenFree 1 = Failed NotReadableError \<and> busyThenFree 2 = Acquired"
    by (simp add: busyThenFree_def)
  have m: "errorMessage NotAllowedError = ''Permission denied''" by simp
  from a C9_camera_retry [of alwaysDenied NotAllowedError NotAllowedError NotAllowedError]
  have "\<not> cameraActive (initCamera alwaysDenied 1 initialCamera)
        \<and> cameraError (initCamera alwaysDenied 1 initialCamera) = Some (errorMessage NotAllowedError)
        \<and> tries (initCamera alwaysDenied 1 initialCamera) = 3
        \<and> waits (initCamera alwaysDenied 1 initialCamera) = [1000, 2000]"
    by blast
  moreover from b C9_camera_retry [of busyThenFree NotReadableError NotReadableError NotReadableError]
  have "cameraActive (initCamera busyThenFree 1 initialCamera)
        \<and> tries (initCamera busyThenFree 1 initialCamera) = 2"
    by blast
  ultimately show ?thesis unfolding m by blast
qed


section \<open>General queries\<close>

lemma startsWith_iff: "startsWith s k \<longleftrightarrow> (\<exists>q. s = k @ q)"
  by (induction s k rule: startsWith.induct) auto

lemma str_includes_iff: "str_includes s k \<longleftrightarrow> (\<exists>p q. s = p @ k @ q)"
proof (induction s)
  case Nil
  then show ?case by (cases k) auto
next
  case (Cons c cs)
  show ?case
  proof
    assume "str_includes (c # cs) k"
    then consider "startsWith (c # cs) k" | "str_includes cs k" by auto
    then show "\<exists>p q. c # cs = p @ k @ q"
    proof cases
      case 1
      then obtain q where "c # cs = k @ q" by (auto simp: startsWith_iff)
      then have "c # cs = [] @ k @ q" by simp
      then show ?thesis by blast
    next
      case 2
      with Cons.IH obtain p q where "cs = p @ k @ q" by auto
      then have "c # cs = (c # p) @ k @ q" by simp
      then show ?thesis by blast
    qed
  next
    assume "\<exists>p q. c # cs = p @ k @ q"
    then obtain p q where pq: "c # cs = p @ k @ q" by blast
    show "str_includes (c # cs) k"
    proof (cases p)
      case Nil
      with pq have "startsWith (c # cs) k" by (auto simp: startsWith_iff)
      then show ?thesis by simp
    next
      case pc: (Cons a p')
      with pq have "cs = p' @ k @ q" by simp
      with Cons.IH have "str_includes cs k" by blast
      then show ?thesis by simp
    qed
  qed
qed

lemma str_includes_set: "str_includes s k \<Longrightarrow> set k \<subseteq> set s"
  by (auto simp add: str_includes_iff)

lemma trim_nonblank:
  assumes "c \<in> set s" and "\<not> isWhiteSpace c"
  shows "trim s \<noteq> []"
proof -
  from assms have ne: "dropWhile isWhiteSpace s \<noteq> []"
    by (auto simp add: dropWhile_eq_Nil_conv)
  then have "\<not> isWhiteSpace (hd (dropWhile isWhiteSpace s))"
    by (rule hd_dropWhile)
  moreover from ne have "hd (dropWhile isWhiteSpace s) \<in> set (rev (dropWhile isWhiteSpace s))"
    by simp
  ultimately have "dropWhile isWhiteSpace (rev (dropWhile isWhiteSpace s)) \<noteq> []"
    by (auto simp add: dropWhile_eq_Nil_conv)
  then show ?thesis by (simp add: trim_def)
qed

lemma keywords_lower:
  "map toLowerCase GENERAL_KEYWORDS = [''weather'', ''time'', ''capital'', ''how old'', ''who is'']"
  by code_simp

lemma toLowerChar_space:
  "toLowerChar CHR '' '' = CHR '' ''" "toLowerChar CHR 0x09 = CHR 0x09"
  "toLowerChar CHR 0x0A = CHR 0x0A" "toLowerChar CHR 0x0B = CHR 0x0B"
  "toLowerChar CHR 0x0C = CHR 0x0C" "toLowerChar CHR 0x0D = CHR 0x0D"
  "toLowerChar CHR 0xA0 = CHR 0xA0"
  by (simp_all add: toLowerChar_def upperCase_def lowerCase_def)

lemma whitespace_not_letter:
  "isWhiteSpace c \<Longrightarrow> toLowerChar c \<notin> {CHR ''w'', CHR ''t'', CHR ''c'', CHR ''h''}"
  unfolding isWhiteSpace_def
  by (auto simp add: toLowerChar_space)

lemma general_query_nonblank:
  assumes "isGeneralQuery q"
  shows "trim q \<noteq> []"
proof -
  from assms obtain k where k: "k \<in> set (map toLowerCase GENERAL_KEYWORDS)"
    and inc: "str_includes (toLowerCase q) k"
    by (auto simp add: isGeneralQuery_def list_ex_iff)
  from k have "hd k \<in> {CHR ''w'', CHR ''t'', CHR ''c'', CHR ''h''}" and "k \<noteq> []"
    unfolding keywords_lower by auto
  then have "hd k \<in> set k" and l: "hd k \<in> {CHR ''w'', CHR ''t'', CHR ''c'', CHR ''h''}"
    by simp_all
  with str_includes_set [OF inc] have "hd k \<in> set (toLowerCase q)" by blast
  then obtain c where c: "c \<in> set q" and "toLowerChar c = hd k"
    by (auto simp add: toLowerCase_def)
  with l whitespace_not_letter [of c] have "\<not> isWhiteSpace c" by auto
  with c show ?thesis by (rule trim_nonblank)
qed

lemma sliceLast_two_more: "sliceLast 3 (ms @ [a, b]) = sliceLast 1 ms @ [a, b]"
  by (simp add: sliceLast_def)

lemma isGeneralQuery_keywords:
  "isGeneralQuery q
   = (str_includes (toLowerCase q) ''weather'' \<or> str_includes (toLowerCase q) ''time''
      \<or> str_includes (toLowerCase q) ''capital'' \<or> str_includes (toLowerCase q) ''how old''
      \<or> str_includes (toLowerCase q) ''who is'')"
proof -
  have "isGeneralQuery q
        = list_ex (str_includes (toLowerCase q)) (map toLowerCase GENERAL_KEYWORDS)"
    by (simp add: isGeneralQuery_def list_ex_iff)
  then show ?thesis
    unfolding keywords_lower by simp
qed

lemma handleSend_general:
  assumes "\<not> isLoading st" and "isGeneralQuery (input st)"
  shows "handleSend model stringify st
      = (st\<lparr>messages := messages st @ [parentMessage (input st), generalReply],
            input := [], isLoading := False\<rparr>, [])"
proof -
  from assms(2) have "trim (input st) \<noteq> []" by (rule general_query_nonblank)
  with assms show ?thesis
    by (simp add: handleSend_def Let_def)
qed

lemma contextOf_after_general:
  "contextOf stringify (ms @ [parentMessage q, generalReply])
     = join (map (contentString stringify) (filter (\<lambda>m. \<not> isGeneral m) (sliceLast 1 ms)) @ [q])"
proof -
  have "filter (\<lambda>m. \<not> isGeneral m) [parentMessage q, generalReply] = [parentMessage q]"
    by (simp add: parentMessage_def generalReply_def)
  moreover have "contentString stringify (parentMessage q) = q"
    by (simp add: parentMessage_def contentString_def)
  ultimately show ?thesis
    by (simp add: contextOf_def sliceLast_two_more)
qed

text \<open>
  Claim C10, as the code has it.  A message that contains one of the keywords weather,
  time, capital, how old, who is (as a substring, in any letter case), sent while no
  request is pending, makes no call to the assistant: the page appends the parent's
  message and the fixed reply, flagged \<open>isGeneral\<close>.  The flagged reply is left out of
  the context of later calls; the parent's own message carries no flag and stays in it.
\<close>

theorem C10_general_query_short_circuit:
  "(\<not> isLoading st \<and> isGeneralQuery (input st) \<longrightarrow>
      handleSend model stringify st
      = (st\<lparr>messages := messages st @ [parentMessage (input st), generalReply],
            input := [], isLoading := False\<rparr>, []))
   \<and> isGeneralQuery q
     = (str_includes (toLowerCase q) ''weather'' \<or> str_includes (toLowerCase q) ''time''
        \<or> str_includes (toLowerCase q) ''capital'' \<or> str_includes (toLowerCase q) ''how old''
        \<or> str_includes (toLowerCase q) ''who is'')
   \<and> contextOf stringify (ms @ [parentMessage q, generalReply])
     = join (map (contentString stringify) (filter (\<lambda>m. \<not> isGeneral m) (sliceLast 1 ms)) @ [q])"
  using handleSend_general [of st model stringify] isGeneralQuery_keywords [of q]
    contextOf_after_general [of stringify ms q]
  by blast

theorem C10_general_query_short_circuit_witness:
  "isGeneralQuery ''What is the WEATHER today?''
   \<and> handleSend failingModel exampleStringify weatherChat
     = (\<lparr>messages = [parentMessage ''What is the WEATHER today?'', generalReply],
         input = [], isLoading = False\<rparr>, [])
   \<and> contextOf exampleStringify [parentMessage ''What is the WEATHER today?'', generalReply]
     = ''What is the WEATHER today?''"
proof -
  have g: "isGeneralQuery ''What is the WEATHER today?''"
    by code_simp
  have w: "\<not> isLoading weatherChat" "input weatherChat = ''What is the WEATHER today?''"
    "messages weatherChat = []"
    by (simp_all add: weatherChat_def)
  have j: "join [''What is the WEATHER today?''] = ''What is the WEATHER today?''"
    by (simp add: join_def)
  from g w j
    C10_general_query_short_circuit [of weatherChat failingModel exampleStringify
      "''What is the WEATHER today?''" "[]"]
  show ?thesis by (simp add: weatherChat_def sliceLast_def)
qed

text \<open>
  The claim as written also excludes the general message itself from later contexts.
  After the weather question, the next message is sent to the assistant with the
  weather question as its context.
\<close>

theorem C10_parent_message_in_context_counterexample:
  "isGeneralQuery ''What is the WEATHER today?''
   \<and> snd (handleSend failingModel exampleStringify
          ((fst (handleSend failingModel exampleStringify weatherChat))
             \<lparr>input := ''My child is upset''\<rparr>))
     = [(''My child is upset'', ''What is the WEATHER today?'')]"
proof -
  have g: "isGeneralQuery ''What is the WEATHER today?''"
    by code_simp
  have n: "\<not> isGeneralQuery ''My child is upset''"
    by code_simp
  have t: "trim ''My child is upset'' \<noteq> []"
    by (simp add: trim_def isWhiteSpace_def)
  have first: "fst (handleSend failingModel exampleStringify weatherChat)
     = \<lparr>messages = [parentMessage ''What is the WEATHER today?'', generalReply],
         input = [], isLoading = False\<rparr>"
    using g by (simp add: handleSend_general weatherChat_def)
  have c: "contextOf exampleStringify [parentMessage ''What is the WEATHER today?'', generalReply]
     = ''What is the WEATHER today?''"
    using contextOf_after_general [of exampleStringify "[]" "''What is the WEATHER today?''"]
    by (simp add: sliceLast_def join_def)
  from g n t c show ?thesis
    unfolding first
    by (simp add: handleSend_def Let_def getParentGuidance_def failingModel_def)
qed

end
